theory Spec2Isabelle
  imports Complex_Main "HOL-Library.AList" "HOL-Library.Char_ord" "HOL-Library.List_Lexorder"
begin

section \<open>Python values used by IDS.py\<close>

text \<open>
  IDS.py computes with Python \<^verbatim>\<open>int\<close> and \<^verbatim>\<open>float\<close> values. An \<^verbatim>\<open>int\<close> is unbounded
  and is modelled by \<open>int\<close>. A \<^verbatim>\<open>float\<close> is either finite, an infinity or a NaN. A
  finite float is given by its real value: every double is a real number, and what is
  proved for all reals holds for the doubles. Comparison, \<^verbatim>\<open>max\<close>, \<^verbatim>\<open>min\<close> and \<^verbatim>\<open>int\<close> are
  exact on doubles and are defined here. The operations that round (\<^verbatim>\<open>round\<close>, \<^verbatim>\<open>sum\<close>,
  \<^verbatim>\<open>/\<close>, \<^verbatim>\<open>-\<close>, \<^verbatim>\<open>**\<close>, \<^verbatim>\<open>math.sqrt\<close>) are not defined: their results are those of the
  machine, the C library and the interpreter, and they are parameters of the model. The
  sign of a zero is not modelled.
\<close>

datatype pyfloat = Fin real | PInf | NInf | NaN

datatype pynum = PInt int | PFloat pyfloat

datatype error =
    ValueError | OverflowError | TypeError | IndexError | AttributeError | FileNotFoundError
  | ZeroDivisionError

text \<open>The numeric value of a number: Python compares and adds an \<^verbatim>\<open>int\<close> and a
  \<^verbatim>\<open>float\<close> by value.\<close>

fun num_val :: "pynum \<Rightarrow> pyfloat" where
  "num_val (PInt i) = Fin (of_int i)"
| "num_val (PFloat f) = f"

text \<open>\<^verbatim>\<open>a < b\<close> on floats: every comparison with a NaN is false.\<close>

fun flt :: "pyfloat \<Rightarrow> pyfloat \<Rightarrow> bool" where
  "flt NaN _ = False"
| "flt _ NaN = False"
| "flt (Fin a) (Fin b) = (a < b)"
| "flt (Fin a) PInf = True"
| "flt (Fin a) NInf = False"
| "flt PInf _ = False"
| "flt NInf NInf = False"
| "flt NInf _ = True"

text \<open>\<^verbatim>\<open>a <= b\<close> on floats.\<close>

fun fle :: "pyfloat \<Rightarrow> pyfloat \<Rightarrow> bool" where
  "fle NaN _ = False"
| "fle _ NaN = False"
| "fle (Fin a) (Fin b) = (a \<le> b)"
| "fle (Fin a) PInf = True"
| "fle (Fin a) NInf = False"
| "fle PInf PInf = True"
| "fle PInf _ = False"
| "fle NInf _ = True"

definition py_lt :: "pynum \<Rightarrow> pynum \<Rightarrow> bool" where
  "py_lt a b = flt (num_val a) (num_val b)"

definition py_le :: "pynum \<Rightarrow> pynum \<Rightarrow> bool" where
  "py_le a b = fle (num_val a) (num_val b)"

text \<open>The builtins \<^verbatim>\<open>max(a, b)\<close> and \<^verbatim>\<open>min(a, b)\<close> keep the first argument unless the
  second is strictly greater (smaller).\<close>

definition py_max :: "pynum \<Rightarrow> pynum \<Rightarrow> pynum" where
  "py_max a b = (if py_lt a b then b else a)"

definition py_min :: "pynum \<Rightarrow> pynum \<Rightarrow> pynum" where
  "py_min a b = (if py_lt b a then b else a)"

text \<open>\<^verbatim>\<open>int(x)\<close> of a number truncates a finite float toward zero and raises on an
  infinity (OverflowError) and on a NaN (ValueError).\<close>

definition trunc :: "real \<Rightarrow> int" where
  "trunc r = (if 0 \<le> r then \<lfloor>r\<rfloor> else \<lceil>r\<rceil>)"

fun py_int :: "pynum \<Rightarrow> error + int" where
  "py_int (PInt i) = Inr i"
| "py_int (PFloat (Fin r)) = Inr (trunc r)"
| "py_int (PFloat PInf) = Inl OverflowError"
| "py_int (PFloat NInf) = Inl OverflowError"
| "py_int (PFloat NaN) = Inl ValueError"

section \<open>The arithmetic of the platform\<close>

text \<open>
  The operations of IDS.py on floats whose results depend on the double arithmetic of the
  platform. Nothing is assumed of them, so a theorem for every platform holds for the
  platform the program runs on.
  \<^item> \<open>p_round2\<close> is \<^verbatim>\<open>round(x, 2)\<close> on a finite float.
  \<^item> \<^verbatim>\<open>sum\<close> starts in the state \<open>p_sum_start\<close> (its start value is the \<^verbatim>\<open>int\<close> 0), takes
    the items from the left with \<open>p_sum_add\<close>, which may raise, and returns
    \<open>p_sum_result\<close> of the last state. The state is of any type: an interpreter that adds
    the items one by one keeps the running total, one that sums floats with a
    compensation keeps the compensation too.
  \<^item> \<open>p_truediv\<close> is \<^verbatim>\<open>x / n\<close> for a number and a length, \<open>p_sub\<close> is \<^verbatim>\<open>x - m\<close> for a number
    and a float, \<open>p_pow2\<close> is \<^verbatim>\<open>y ** 2\<close> on a float, \<open>p_sqrt\<close> is \<^verbatim>\<open>math.sqrt\<close> on a float;
    each of them may raise.
\<close>

record 's platform =
  p_round2 :: "real \<Rightarrow> real"
  p_sum_start :: 's
  p_sum_add :: "'s \<Rightarrow> pynum \<Rightarrow> error + 's"
  p_sum_result :: "'s \<Rightarrow> pynum"
  p_truediv :: "pynum \<Rightarrow> nat \<Rightarrow> error + pyfloat"
  p_sub :: "pynum \<Rightarrow> pyfloat \<Rightarrow> error + pyfloat"
  p_pow2 :: "pyfloat \<Rightarrow> error + pyfloat"
  p_sqrt :: "pyfloat \<Rightarrow> error + pyfloat"

text \<open>\<^verbatim>\<open>round(x, 2)\<close>: an \<^verbatim>\<open>int\<close> is returned as it is, an infinity and a NaN too; a
  finite float is rounded by the platform.\<close>

fun fround2 :: "'s platform \<Rightarrow> pyfloat \<Rightarrow> pyfloat" where
  "fround2 P (Fin r) = Fin (p_round2 P r)"
| "fround2 P f = f"

fun py_round2 :: "'s platform \<Rightarrow> pynum \<Rightarrow> pynum" where
  "py_round2 P (PInt i) = PInt i"
| "py_round2 P (PFloat f) = PFloat (fround2 P f)"

section \<open>Text\<close>

text \<open>A \<^verbatim>\<open>str\<close> is a list of characters with code points below 256. \<^verbatim>\<open>str.strip()\<close> removes
  the white space of that range from both ends: the code points 9 to 13, 28 to 32, 133
  and 160.\<close>

definition py_isspace :: "char \<Rightarrow> bool" where
  "py_isspace c =
     (let n = (of_char c :: nat)
      in (9 \<le> n \<and> n \<le> 13) \<or> (28 \<le> n \<and> n \<le> 32) \<or> n = 133 \<or> n = 160)"

definition py_strip :: "string \<Rightarrow> string" where
  "py_strip s = rev (dropWhile py_isspace (rev (dropWhile py_isspace s)))"

text \<open>\<^verbatim>\<open>s.split(":")\<close>: the fields between the colons, at least one.\<close>

fun py_split :: "string \<Rightarrow> string list" where
  "py_split [] = [Nil]"
| "py_split (c # cs) =
     (if c = CHR '':'' then [] # py_split cs
      else (case py_split cs of [] \<Rightarrow> [c] # [] | p # ps \<Rightarrow> (c # p) # ps))"

definition startswith :: "string \<Rightarrow> string \<Rightarrow> bool" where
  "startswith s p = (take (length p) s = p)"

definition endswith :: "string \<Rightarrow> string \<Rightarrow> bool" where
  "endswith s p = (length p \<le> length s \<and> drop (length s - length p) s = p)"

text \<open>\<^verbatim>\<open>str(n)\<close> of a natural number, as the f-string of the log file name formats it.\<close>

definition digit_char :: "nat \<Rightarrow> char" where
  "digit_char d = ''0123456789'' ! d"

fun str_nat :: "nat \<Rightarrow> string" where
  "str_nat n = (if n < 10 then [digit_char n] else str_nat (n div 10) @ [digit_char (n mod 10)])"

declare str_nat.simps [simp del]

text \<open>The slice \<^verbatim>\<open>xs[start:stop]\<close> for a start that is not negative: a negative stop counts
  from the end, and both ends are clipped to the list.\<close>

definition py_slice :: "'a list \<Rightarrow> nat \<Rightarrow> int \<Rightarrow> 'a list" where
  "py_slice xs start stop =
     (let n = int (length xs);
          e = (if stop < 0 then max 0 (stop + n) else min stop n)
      in drop start (take (nat e) xs))"

section \<open>The state of a run\<close>

text \<open>
  The module keeps two global dictionaries, \<^verbatim>\<open>events\<close> and \<^verbatim>\<open>statistics\<close>. A \<^verbatim>\<open>dict\<close>
  keeps its keys in insertion order, and assigning to a present key keeps the key's place:
  an association list changed with \<open>AList.update\<close>. The rest of the state is what the
  program prints, the directory \<^verbatim>\<open>logs\<close> (absent, or its files by name) and the number of
  calls of \<^verbatim>\<open>random.gauss\<close> made so far. Every entry of the directory is a regular file
  that can be read and written; a write that the operating system refuses is not part of
  this model.
\<close>

record event_info =
  ev_type :: string
  ev_min :: pynum
  ev_max :: pynum
  ev_weight :: int

record stat_info =
  st_mean :: pyfloat
  st_std_dev :: pyfloat

text \<open>What \<^verbatim>\<open>json.load\<close> returns for a document.\<close>

datatype json =
    JNum pynum | JBool bool | JStr string | JNull | JArr "json list" | JObj "(string \<times> json) list"

text \<open>A file of the log directory holds a JSON document, or text that \<^verbatim>\<open>json.load\<close>
  rejects with a JSONDecodeError carrying a message. Writing a dictionary with
  \<^verbatim>\<open>json.dump\<close> and reading it with \<^verbatim>\<open>json.load\<close> gives the dictionary back.\<close>

datatype log_file = Doc json | Corrupt string

record world =
  events :: "(string \<times> event_info) list"
  statistics :: "(string \<times> stat_info) list"
  stdout :: "string list"
  log_dir :: "(string \<times> log_file) list option"
  gauss_calls :: nat

section \<open>Reading the configuration\<close>

text \<open>
  \<open>read_events\<close> and \<open>read_statistics\<close> convert fields with the builtins \<^verbatim>\<open>float\<close> and
  \<^verbatim>\<open>int\<close>. The two conversions from text are parameters \<open>pfloat\<close> and \<open>pint\<close> of the model:
  \<open>None\<close> is the ValueError of the builtin. The file is the list of its lines as
  \<^verbatim>\<open>readlines\<close> returns them, or \<open>None\<close> when it cannot be opened.
\<close>

type_synonym float_reader = "string \<Rightarrow> pyfloat option"
type_synonym int_reader = "string \<Rightarrow> int option"

definition events_diag :: "string \<Rightarrow> string" where
  "events_diag line = ''Skipping invalid line in Events.txt: '' @ py_strip line"

definition stats_diag :: "string \<Rightarrow> string" where
  "stats_diag line = ''Skipping invalid line in Stats.txt: '' @ py_strip line"

text \<open>The dictionary literal of \<open>read_events\<close>: the fields are converted in the order
  \<^verbatim>\<open>min\<close>, \<^verbatim>\<open>max\<close>, \<^verbatim>\<open>weight\<close>; an empty \<^verbatim>\<open>min\<close> is the \<^verbatim>\<open>int\<close> 0 and an empty \<^verbatim>\<open>max\<close>
  is \<^verbatim>\<open>float("inf")\<close>.\<close>

definition event_record :: "float_reader \<Rightarrow> int_reader \<Rightarrow> string list \<Rightarrow> error + event_info" where
  "event_record pfloat pint parts =
     (let event_type = parts ! 1; min_val = parts ! 2; max_val = parts ! 3; weight = parts ! 4
      in case (if min_val \<noteq> [] then map_option PFloat (pfloat min_val) else Some (PInt 0)) of
           None \<Rightarrow> Inl ValueError
         | Some mn \<Rightarrow>
             (case (if max_val \<noteq> [] then pfloat max_val else Some PInf) of
                None \<Rightarrow> Inl ValueError
              | Some mx \<Rightarrow>
                  (case pint weight of
                     None \<Rightarrow> Inl ValueError
                   | Some w \<Rightarrow>
                       Inr \<lparr>ev_type = event_type, ev_min = mn, ev_max = PFloat mx, ev_weight = w\<rparr>)))"

fun read_events_lines :: "float_reader \<Rightarrow> int_reader \<Rightarrow> string list \<Rightarrow> world \<Rightarrow> error + world" where
  "read_events_lines pfloat pint [] w = Inr w"
| "read_events_lines pfloat pint (line # rest) w =
     (let parts = py_split (py_strip line)
      in if length parts \<noteq> 5
         then read_events_lines pfloat pint rest (w\<lparr>stdout := stdout w @ [events_diag line]\<rparr>)
         else (case event_record pfloat pint parts of
                 Inl e \<Rightarrow> Inl e
               | Inr info \<Rightarrow>
                   read_events_lines pfloat pint rest
                     (w\<lparr>events := AList.update (parts ! 0) info (events w)\<rparr>)))"

definition read_events :: "float_reader \<Rightarrow> int_reader \<Rightarrow> string list option \<Rightarrow> world \<Rightarrow> error + world" where
  "read_events pfloat pint lines_opt w =
     (case lines_opt of
        None \<Rightarrow> Inl FileNotFoundError
      | Some lines \<Rightarrow>
          (case lines of
             [] \<Rightarrow> Inl IndexError
           | first # _ \<Rightarrow>
               (case pint (py_strip first) of
                  None \<Rightarrow> Inl ValueError
                | Some num_events \<Rightarrow>
                    read_events_lines pfloat pint (py_slice lines 1 (num_events + 1)) w)))"

definition stat_record :: "float_reader \<Rightarrow> string list \<Rightarrow> error + stat_info" where
  "stat_record pfloat parts =
     (case pfloat (parts ! 1) of
        None \<Rightarrow> Inl ValueError
      | Some m \<Rightarrow>
          (case pfloat (parts ! 2) of
             None \<Rightarrow> Inl ValueError
           | Some sd \<Rightarrow> Inr \<lparr>st_mean = m, st_std_dev = sd\<rparr>))"

fun read_statistics_lines :: "float_reader \<Rightarrow> string list \<Rightarrow> world \<Rightarrow> error + world" where
  "read_statistics_lines pfloat [] w = Inr w"
| "read_statistics_lines pfloat (line # rest) w =
     (let parts = py_split (py_strip line)
      in if length parts \<noteq> 4
         then read_statistics_lines pfloat rest (w\<lparr>stdout := stdout w @ [stats_diag line]\<rparr>)
         else (case stat_record pfloat parts of
                 Inl e \<Rightarrow> Inl e
               | Inr info \<Rightarrow>
                   read_statistics_lines pfloat rest
                     (w\<lparr>statistics := AList.update (parts ! 0) info (statistics w)\<rparr>)))"

definition read_statistics :: "float_reader \<Rightarrow> int_reader \<Rightarrow> string list option \<Rightarrow> world \<Rightarrow> error + world" where
  "read_statistics pfloat pint lines_opt w =
     (case lines_opt of
        None \<Rightarrow> Inl FileNotFoundError
      | Some lines \<Rightarrow>
          (case lines of
             [] \<Rightarrow> Inl IndexError
           | first # _ \<Rightarrow>
               (case pint (py_strip first) of
                  None \<Rightarrow> Inl ValueError
                | Some num_stats \<Rightarrow>
                    read_statistics_lines pfloat (py_slice lines 1 (num_stats + 1)) w)))"

section \<open>Generating the daily records\<close>

text \<open>
  \<^verbatim>\<open>random.gauss(mean, std_dev)\<close> is a parameter of the model: a function from the number
  of calls made before and the two arguments to the value drawn. Nothing is assumed of
  it, so a theorem for every such function holds for every sequence of draws.
\<close>

type_synonym gauss_source = "nat \<Rightarrow> pyfloat \<Rightarrow> pyfloat \<Rightarrow> pyfloat"

text \<open>The value of one event for a raw draw. The arguments of the discrete branch are
  evaluated from the left: \<^verbatim>\<open>int(min)\<close>, then \<^verbatim>\<open>int\<close> of the draw, then \<^verbatim>\<open>int(max)\<close>.\<close>

definition sample_value :: "'s platform \<Rightarrow> event_info \<Rightarrow> pyfloat \<Rightarrow> error + pynum" where
  "sample_value P event_info raw =
     (if ev_type event_info = ''C''
      then Inr (py_round2 P (py_max (ev_min event_info) (py_min (PFloat raw) (ev_max event_info))))
      else (case py_int (ev_min event_info) of
              Inl e \<Rightarrow> Inl e
            | Inr lo \<Rightarrow>
                (case py_int (PFloat raw) of
                   Inl e \<Rightarrow> Inl e
                 | Inr x \<Rightarrow>
                     (case py_int (ev_max event_info) of
                        Inl e \<Rightarrow> Inl e
                      | Inr hi \<Rightarrow> Inr (PInt (max lo (min x hi)))))))"

type_synonym daily = "(string \<times> pynum) list"

text \<open>The inner loop over \<^verbatim>\<open>events.items()\<close>: an event without statistics is passed over
  without a draw.\<close>

fun sample_events ::
  "'s platform \<Rightarrow> gauss_source \<Rightarrow> (string \<times> stat_info) list \<Rightarrow> (string \<times> event_info) list \<Rightarrow> daily \<Rightarrow> nat
    \<Rightarrow> error + (daily \<times> nat)" where
  "sample_events P gauss sts [] daily_events k = Inr (daily_events, k)"
| "sample_events P gauss sts ((event_name, event_info) # rest) daily_events k =
     (case map_of sts event_name of
        None \<Rightarrow> sample_events P gauss sts rest daily_events k
      | Some st \<Rightarrow>
          (case sample_value P event_info (gauss k (st_mean st) (st_std_dev st)) of
             Inl e \<Rightarrow> Inl e
           | Inr v \<Rightarrow>
               sample_events P gauss sts rest (AList.update event_name v daily_events) (Suc k)))"

definition log_name :: "nat \<Rightarrow> string" where
  "log_name day = ''day_'' @ str_nat (day + 1) @ ''.log''"

definition json_of_daily :: "daily \<Rightarrow> json" where
  "json_of_daily d = JObj (map (\<lambda>(k, v). (k, JNum v)) d)"

text \<open>The loop over \<^verbatim>\<open>range(days)\<close>. Writing the file of a day replaces a file of that
  name.\<close>

fun generate_days :: "'s platform \<Rightarrow> gauss_source \<Rightarrow> nat list \<Rightarrow> world \<Rightarrow> daily list \<Rightarrow> error + (daily list \<times> world)" where
  "generate_days P gauss [] w all_events = Inr (all_events, w)"
| "generate_days P gauss (day # rest) w all_events =
     (case sample_events P gauss (statistics w) (events w) [(''Day'', PInt (int day + 1))]
             (gauss_calls w) of
        Inl e \<Rightarrow> Inl e
      | Inr (daily_events, k) \<Rightarrow>
          (case log_dir w of
             None \<Rightarrow> Inl FileNotFoundError
           | Some dir \<Rightarrow>
               generate_days P gauss rest
                 (w\<lparr>gauss_calls := k,
                    log_dir := Some (AList.update (log_name day) (Doc (json_of_daily daily_events)) dir)\<rparr>)
                 (all_events @ [daily_events])))"

definition generate_events :: "'s platform \<Rightarrow> gauss_source \<Rightarrow> int \<Rightarrow> world \<Rightarrow> error + (daily list \<times> world)" where
  "generate_events P gauss days w =
     generate_days P gauss [0..<nat days]
       (if log_dir w = None then w\<lparr>log_dir := Some []\<rparr> else w) []"

section \<open>Analysing the logs\<close>

text \<open>What arithmetic makes of a value read from a log: a number stays, a boolean is the
  \<^verbatim>\<open>int\<close> 0 or 1, and every other value raises a TypeError when it is added to or
  subtracted from a number.\<close>

fun json_number :: "json \<Rightarrow> pynum option" where
  "json_number (JNum n) = Some n"
| "json_number (JBool b) = Some (PInt (if b then 1 else 0))"
| "json_number _ = None"

text \<open>\<^verbatim>\<open>sum(values)\<close> takes the items from the left.\<close>

fun py_sum_from :: "'s platform \<Rightarrow> 's \<Rightarrow> json list \<Rightarrow> error + pynum" where
  "py_sum_from P acc [] = Inr (p_sum_result P acc)"
| "py_sum_from P acc (v # vs) =
     (case json_number v of
        None \<Rightarrow> Inl TypeError
      | Some n \<Rightarrow>
          (case p_sum_add P acc n of
             Inl e \<Rightarrow> Inl e
           | Inr acc' \<Rightarrow> py_sum_from P acc' vs))"

definition py_sum :: "'s platform \<Rightarrow> json list \<Rightarrow> error + pynum" where
  "py_sum P vs = py_sum_from P (p_sum_start P) vs"

text \<open>\<^verbatim>\<open>sum((x - mean) ** 2 for x in values)\<close>: the generator computes the square for an
  item when \<^verbatim>\<open>sum\<close> asks for it.\<close>

fun sum_sq_dev :: "'s platform \<Rightarrow> pyfloat \<Rightarrow> 's \<Rightarrow> json list \<Rightarrow> error + pynum" where
  "sum_sq_dev P m acc [] = Inr (p_sum_result P acc)"
| "sum_sq_dev P m acc (x # xs) =
     (case json_number x of
        None \<Rightarrow> Inl TypeError
      | Some n \<Rightarrow>
          (case p_sub P n m of
             Inl e \<Rightarrow> Inl e
           | Inr d \<Rightarrow>
               (case p_pow2 P d of
                  Inl e \<Rightarrow> Inl e
                | Inr q \<Rightarrow>
                    (case p_sum_add P acc (PFloat q) of
                       Inl e \<Rightarrow> Inl e
                     | Inr acc' \<Rightarrow> sum_sq_dev P m acc' xs))))"

record baseline =
  total :: pynum
  mean :: pyfloat
  std_dev :: pyfloat

text \<open>The body of the last loop of \<open>analyze_stats\<close> for one event with values. The result
  of \<^verbatim>\<open>math.sqrt\<close> and the mean are floats, and \<^verbatim>\<open>round\<close> is applied to them.\<close>

definition event_baseline :: "'s platform \<Rightarrow> json list \<Rightarrow> error + baseline" where
  "event_baseline P vals =
     (case py_sum P vals of
        Inl e \<Rightarrow> Inl e
      | Inr s \<Rightarrow>
     (case p_truediv P s (length vals) of
        Inl e \<Rightarrow> Inl e
      | Inr m \<Rightarrow>
     (case sum_sq_dev P m (p_sum_start P) vals of
        Inl e \<Rightarrow> Inl e
      | Inr ss \<Rightarrow>
     (case p_truediv P ss (length vals) of
        Inl e \<Rightarrow> Inl e
      | Inr variance \<Rightarrow>
     (case p_sqrt P variance of
        Inl e \<Rightarrow> Inl e
      | Inr sd \<Rightarrow>
     (case py_sum P vals of
        Inl e \<Rightarrow> Inl e
      | Inr t \<Rightarrow> Inr \<lparr>total = t, mean = fround2 P m, std_dev = fround2 P sd\<rparr>))))))"

fun baseline_loop ::
  "'s platform \<Rightarrow> (string \<times> json list) list \<Rightarrow> (string \<times> baseline) list
    \<Rightarrow> error + (string \<times> baseline) list" where
  "baseline_loop P [] baseline_statistics = Inr baseline_statistics"
| "baseline_loop P ((event_name, vals) # rest) baseline_statistics =
     (if vals \<noteq> []
      then (case event_baseline P vals of
              Inl e \<Rightarrow> Inl e
            | Inr b \<Rightarrow> baseline_loop P rest (AList.update event_name b baseline_statistics))
      else baseline_loop P rest baseline_statistics)"

definition is_log_name :: "string \<Rightarrow> bool" where
  "is_log_name f = (startswith f ''day_'' \<and> endswith f ''.log'')"

text \<open>The loop over \<^verbatim>\<open>daily_data.items()\<close>: a value is appended only under a name that
  is a key of \<^verbatim>\<open>daily_totals\<close>.\<close>

fun add_items :: "(string \<times> json) list \<Rightarrow> (string \<times> json list) list \<Rightarrow> (string \<times> json list) list" where
  "add_items [] daily_totals = daily_totals"
| "add_items ((event_name, v) # rest) daily_totals =
     add_items rest
       (if event_name \<in> set (map fst daily_totals)
        then AList.map_entry event_name (\<lambda>vs. vs @ [v]) daily_totals
        else daily_totals)"

definition log_diag :: "string \<Rightarrow> string \<Rightarrow> string" where
  "log_diag f msg = ''Error reading log file '' @ f @ '': '' @ msg"

text \<open>The loop over the log files. Only a JSONDecodeError is caught; a document that is
  not an object has no \<^verbatim>\<open>items\<close>, and that AttributeError leaves the function.\<close>

fun read_logs ::
  "(string \<times> log_file) list \<Rightarrow> string list \<Rightarrow> (string \<times> json list) list \<Rightarrow> string list
    \<Rightarrow> error + ((string \<times> json list) list \<times> string list)" where
  "read_logs dir [] daily_totals out = Inr (daily_totals, out)"
| "read_logs dir (f # fs) daily_totals out =
     (case map_of dir f of
        None \<Rightarrow> Inl FileNotFoundError
      | Some (Corrupt msg) \<Rightarrow> read_logs dir fs daily_totals (out @ [log_diag f msg])
      | Some (Doc (JObj items)) \<Rightarrow> read_logs dir fs (add_items items daily_totals) out
      | Some (Doc _) \<Rightarrow> Inl AttributeError)"

definition log_files :: "(string \<times> log_file) list \<Rightarrow> string list" where
  "log_files dir = sort (filter is_log_name (map fst dir))"

definition analyze_stats :: "'s platform \<Rightarrow> world \<Rightarrow> error + ((string \<times> baseline) list \<times> world)" where
  "analyze_stats P w =
     (let daily_totals = map (\<lambda>name. (name, [])) (map fst (events w))
      in case log_dir w of
           None \<Rightarrow> Inl FileNotFoundError
         | Some dir \<Rightarrow>
             (case read_logs dir (log_files dir) daily_totals (stdout w) of
                Inl e \<Rightarrow> Inl e
              | Inr (totals, out) \<Rightarrow>
                  (case baseline_loop P totals [] of
                     Inl e \<Rightarrow> Inl e
                   | Inr baseline_statistics \<Rightarrow> Inr (baseline_statistics, w\<lparr>stdout := out\<rparr>))))"

section \<open>An exact platform for the examples\<close>

text \<open>
  A platform with the range of the doubles and without their rounding. It computes in the
  real numbers. A result of magnitude \<open>2 ^ 1024\<close> or more, which is beyond every double, is
  what Python makes of it: an infinity for a sum or a difference of floats, an
  OverflowError for the conversion of an \<^verbatim>\<open>int\<close> to a float, for the quotient of an \<^verbatim>\<open>int\<close>
  and for a square. \<^verbatim>\<open>round(x, 2)\<close> rounds the exact value to two decimal places, a tie to
  the even digit. It is not the arithmetic of a machine: it stands for it in the concrete
  examples, which use it on whole numbers only, where double arithmetic gives the same
  results. No theorem on the program depends on it.
\<close>

definition round_half_even :: "real \<Rightarrow> int" where
  "round_half_even x =
     (let f = \<lfloor>x\<rfloor>; d = x - of_int f
      in if d < 1 / 2 then f else if 1 / 2 < d then f + 1 else if even f then f else f + 1)"

definition exact_round2 :: "real \<Rightarrow> real" where
  "exact_round2 x = of_int (round_half_even (x * 100)) / 100"

definition float_limit :: real where
  "float_limit = 2 ^ 1024"

text \<open>The float of an exact sum or difference.\<close>

definition exact_fin :: "real \<Rightarrow> pyfloat" where
  "exact_fin r = (if float_limit \<le> r then PInf else if r \<le> - float_limit then NInf else Fin r)"

fun exact_fadd :: "pyfloat \<Rightarrow> pyfloat \<Rightarrow> pyfloat" where
  "exact_fadd NaN _ = NaN"
| "exact_fadd _ NaN = NaN"
| "exact_fadd (Fin a) (Fin b) = exact_fin (a + b)"
| "exact_fadd PInf NInf = NaN"
| "exact_fadd NInf PInf = NaN"
| "exact_fadd PInf _ = PInf"
| "exact_fadd _ PInf = PInf"
| "exact_fadd NInf _ = NInf"
| "exact_fadd _ NInf = NInf"

fun exact_fneg :: "pyfloat \<Rightarrow> pyfloat" where
  "exact_fneg (Fin a) = Fin (- a)"
| "exact_fneg PInf = NInf"
| "exact_fneg NInf = PInf"
| "exact_fneg NaN = NaN"

text \<open>The float that arithmetic with a float makes of a number: an \<^verbatim>\<open>int\<close> too large for
  a float raises.\<close>

fun exact_float :: "pynum \<Rightarrow> error + pyfloat" where
  "exact_float (PInt i) =
     (if float_limit \<le> \<bar>of_int i\<bar> then Inl OverflowError else Inr (Fin (of_int i)))"
| "exact_float (PFloat f) = Inr f"

text \<open>\<^verbatim>\<open>a + b\<close>: two \<^verbatim>\<open>int\<close>s give an \<^verbatim>\<open>int\<close>, every other pair a float.\<close>

fun exact_add :: "pynum \<Rightarrow> pynum \<Rightarrow> error + pynum" where
  "exact_add (PInt a) (PInt b) = Inr (PInt (a + b))"
| "exact_add a b =
     (case exact_float a of
        Inl e \<Rightarrow> Inl e
      | Inr x \<Rightarrow>
          (case exact_float b of
             Inl e \<Rightarrow> Inl e
           | Inr y \<Rightarrow> Inr (PFloat (exact_fadd x y))))"

fun exact_fdiv :: "pyfloat \<Rightarrow> nat \<Rightarrow> pyfloat" where
  "exact_fdiv (Fin a) n = Fin (a / of_nat n)"
| "exact_fdiv f n = f"

text \<open>\<^verbatim>\<open>x / n\<close>: the quotient of two \<^verbatim>\<open>int\<close>s raises when it is too large for a float.\<close>

fun exact_truediv :: "pynum \<Rightarrow> nat \<Rightarrow> error + pyfloat" where
  "exact_truediv (PInt i) n =
     (if n = 0 then Inl ZeroDivisionError
      else if float_limit \<le> \<bar>of_int i / of_nat n\<bar> then Inl OverflowError
      else Inr (Fin (of_int i / of_nat n)))"
| "exact_truediv (PFloat f) n = (if n = 0 then Inl ZeroDivisionError else Inr (exact_fdiv f n))"

definition exact_sub :: "pynum \<Rightarrow> pyfloat \<Rightarrow> error + pyfloat" where
  "exact_sub x m =
     (case exact_float x of
        Inl e \<Rightarrow> Inl e
      | Inr y \<Rightarrow> Inr (exact_fadd y (exact_fneg m)))"

text \<open>\<^verbatim>\<open>y ** 2\<close> raises when the square is too large for a float.\<close>

fun exact_pow2 :: "pyfloat \<Rightarrow> error + pyfloat" where
  "exact_pow2 (Fin a) = (if float_limit \<le> a * a then Inl OverflowError else Inr (Fin (a * a)))"
| "exact_pow2 PInf = Inr PInf"
| "exact_pow2 NInf = Inr PInf"
| "exact_pow2 NaN = Inr NaN"

fun exact_sqrt :: "pyfloat \<Rightarrow> error + pyfloat" where
  "exact_sqrt (Fin a) = (if a < 0 then Inl ValueError else Inr (Fin (sqrt a)))"
| "exact_sqrt PInf = Inr PInf"
| "exact_sqrt NInf = Inl ValueError"
| "exact_sqrt NaN = Inr NaN"

definition exact_platform :: "pynum platform" where
  "exact_platform =
     \<lparr>p_round2 = exact_round2, p_sum_start = PInt 0, p_sum_add = exact_add,
      p_sum_result = (\<lambda>acc. acc), p_truediv = exact_truediv, p_sub = exact_sub,
      p_pow2 = exact_pow2, p_sqrt = exact_sqrt\<rparr>"

text \<open>
  What the example of the specification needs of a platform: on whole numbers of
  magnitude up to \<open>2 ^ 53\<close>, which are doubles, an operation whose exact result is such a
  number returns it. Double arithmetic that rounds correctly does.
\<close>

definition small :: "int \<Rightarrow> bool" where
  "small i = (\<bar>i\<bar> \<le> 2 ^ 53)"

definition int_items :: "int list \<Rightarrow> json list" where
  "int_items xs = map (\<lambda>i. JNum (PInt i)) xs"

definition float_items :: "int list \<Rightarrow> json list" where
  "float_items xs = map (\<lambda>i. JNum (PFloat (Fin (of_int i)))) xs"

text \<open>The sum of \<^verbatim>\<open>int\<close>s is their exact sum, as it is in Python, where an \<^verbatim>\<open>int\<close> is
  unbounded.\<close>

definition exact_int_sum :: "'s platform \<Rightarrow> bool" where
  "exact_int_sum P = (\<forall>xs. py_sum P (int_items xs) = Inr (PInt (sum_list xs)))"

definition integer_exact :: "'s platform \<Rightarrow> bool" where
  "integer_exact P =
     (exact_int_sum P
      \<and> (\<forall>xs. xs \<noteq> [] \<and> (\<forall>x \<in> set xs. 0 \<le> x) \<and> small (sum_list xs) \<longrightarrow>
            py_sum P (float_items xs) = Inr (PFloat (Fin (of_int (sum_list xs)))))
      \<and> (\<forall>k n. 0 < n \<and> small k \<longrightarrow>
            p_truediv P (PInt (k * int n)) n = Inr (Fin (of_int k)))
      \<and> (\<forall>k n. 0 < n \<and> small (int n) \<and> small (k * int n) \<longrightarrow>
            p_truediv P (PFloat (Fin (of_int (k * int n)))) n = Inr (Fin (of_int k)))
      \<and> (\<forall>i k. small i \<and> small k \<and> small (i - k) \<longrightarrow>
            p_sub P (PInt i) (Fin (of_int k)) = Inr (Fin (of_int (i - k))))
      \<and> (\<forall>k. small (k * k) \<longrightarrow> p_pow2 P (Fin (of_int k)) = Inr (Fin (of_int (k * k))))
      \<and> (\<forall>k. 0 \<le> k \<and> small (k * k) \<longrightarrow> p_sqrt P (Fin (of_int (k * k))) = Inr (Fin (of_int k)))
      \<and> (\<forall>k. small k \<longrightarrow> p_round2 P (of_int k) = of_int k))"

text \<open>Rounding that keeps the order: \<^verbatim>\<open>round(x, 2) <= round(y, 2)\<close> whenever \<^verbatim>\<open>x <= y\<close>.\<close>

definition round_monotone :: "'s platform \<Rightarrow> bool" where
  "round_monotone P = (\<forall>x y. x \<le> y \<longrightarrow> p_round2 P x \<le> p_round2 P y)"

section \<open>Readers for the examples\<close>

text \<open>
  Two readers for plain decimal literals, \<^verbatim>\<open>-?[0-9]+\<close> and \<^verbatim>\<open>-?[0-9]+(\.[0-9]+)?\<close>. On
  such a literal \<open>lit_int\<close> returns the value that \<^verbatim>\<open>int\<close> returns, and \<open>lit_float\<close> returns
  the exact value of the literal. That is the value that \<^verbatim>\<open>float\<close> returns when it is a
  double, as it is for every literal of the examples (\<open>1.5\<close>, \<open>1440\<close>); for any other
  literal \<^verbatim>\<open>float\<close> returns the nearest double. The readers stand for the builtins in
  the concrete examples only; the theorems hold for every reader.
\<close>

definition digit_val :: "char \<Rightarrow> nat option" where
  "digit_val c =
     (let n = (of_char c :: nat) in if 48 \<le> n \<and> n \<le> 57 then Some (n - 48) else None)"

fun digits_val :: "string \<Rightarrow> nat \<Rightarrow> nat option" where
  "digits_val [] acc = Some acc"
| "digits_val (c # cs) acc =
     (case digit_val c of None \<Rightarrow> None | Some d \<Rightarrow> digits_val cs (10 * acc + d))"

definition lit_nat :: "string \<Rightarrow> nat option" where
  "lit_nat s = (if s = [] then None else digits_val s 0)"

definition lit_int :: int_reader where
  "lit_int s =
     (case s of
        [] \<Rightarrow> None
      | c # ds \<Rightarrow>
          if c = CHR ''-'' then map_option (\<lambda>n. - int n) (lit_nat ds)
          else map_option int (lit_nat s))"

definition lit_abs_float :: "string \<Rightarrow> real option" where
  "lit_abs_float s =
     (let ip = takeWhile (\<lambda>c. c \<noteq> CHR ''.'') s; rest = dropWhile (\<lambda>c. c \<noteq> CHR ''.'') s
      in case lit_nat ip of
           None \<Rightarrow> None
         | Some i \<Rightarrow>
             (case rest of
                [] \<Rightarrow> Some (real i)
              | _ # fp \<Rightarrow>
                  (case lit_nat fp of
                     None \<Rightarrow> None
                   | Some f \<Rightarrow> Some (real i + real f / 10 ^ length fp))))"

definition lit_float :: float_reader where
  "lit_float s =
     (case s of
        [] \<Rightarrow> None
      | c # ds \<Rightarrow>
          if c = CHR ''-'' then map_option (\<lambda>r. Fin (- r)) (lit_abs_float ds)
          else map_option Fin (lit_abs_float s))"

section \<open>Example configurations\<close>

text \<open>The state at the start of the program: both dictionaries empty, nothing printed,
  no draw made; the log directory is as the file system has it.\<close>

definition initial_world :: "(string \<times> log_file) list option \<Rightarrow> world" where
  "initial_world dir =
     \<lparr>events = [], statistics = [], stdout = [], log_dir = dir, gauss_calls = 0\<rparr>"

text \<open>A source of draws that returns the mean.\<close>

definition gauss_mean :: gauss_source where
  "gauss_mean k m sd = m"

text \<open>The event of the docstring of \<open>read_events\<close>: discrete, with an empty \<^verbatim>\<open>max\<close> field.\<close>

definition logins_info :: event_info where
  "logins_info = \<lparr>ev_type = ''D'', ev_min = PInt 0, ev_max = PFloat PInf, ev_weight = 2\<rparr>"

definition logins_stat :: stat_info where
  "logins_stat = \<lparr>st_mean = Fin 4, st_std_dev = Fin (3 / 2)\<rparr>"

definition logins_world :: world where
  "logins_world =
     (initial_world None)\<lparr>events := [(''Logins'', logins_info)],
                           statistics := [(''Logins'', logins_stat)]\<rparr>"

section \<open>The properties of a sampled value, as the specification words them\<close>

text \<open>The bounds property: the stored value lies between the declared bounds.\<close>

definition within_bounds :: "event_info \<Rightarrow> pynum \<Rightarrow> bool" where
  "within_bounds info v = (py_le (ev_min info) v \<and> py_le v (ev_max info))"

text \<open>A bound that its conversion does not loosen. The continuous branch rounds the
  clamped value, so the lower bound is kept when \<^verbatim>\<open>min <= round(float(min), 2)\<close> and the
  upper bound when \<^verbatim>\<open>round(float(max), 2) <= max\<close>. The discrete branch clamps between
  \<^verbatim>\<open>int(min)\<close> and \<^verbatim>\<open>int(max)\<close>, so the lower bound is kept when \<^verbatim>\<open>min <= int(min)\<close> and
  the upper bound when \<^verbatim>\<open>int(max) <= max\<close>.\<close>

definition lower_kept :: "'s platform \<Rightarrow> event_info \<Rightarrow> bool" where
  "lower_kept P info =
     (if ev_type info = ''C''
      then fle (num_val (ev_min info)) (fround2 P (num_val (ev_min info)))
      else (case py_int (ev_min info) of
              Inl e \<Rightarrow> False
            | Inr lo \<Rightarrow> py_le (ev_min info) (PInt lo)))"

definition upper_kept :: "'s platform \<Rightarrow> event_info \<Rightarrow> bool" where
  "upper_kept P info =
     (if ev_type info = ''C''
      then fle (fround2 P (num_val (ev_max info))) (num_val (ev_max info))
      else (case py_int (ev_max info) of
              Inl e \<Rightarrow> False
            | Inr hi \<Rightarrow> py_le (PInt hi) (ev_max info)))"

text \<open>The discrete value in the words of the specification: the draw truncated toward
  zero, then clamped into the bounds converted by floor.\<close>

definition spec_discrete_value :: "real \<Rightarrow> real \<Rightarrow> real \<Rightarrow> int" where
  "spec_discrete_value mn mx raw = max \<lfloor>mn\<rfloor> (min (trunc raw) \<lfloor>mx\<rfloor>)"

text \<open>A continuous and a discrete event with a fractional lower bound, and a discrete
  event with a negative fractional lower bound.\<close>

definition time_info :: event_info where
  "time_info = \<lparr>ev_type = ''C'', ev_min = PFloat (Fin (5 / 16)), ev_max = PFloat (Fin 1440),
                 ev_weight = 3\<rparr>"

definition emails_info :: event_info where
  "emails_info = \<lparr>ev_type = ''D'', ev_min = PFloat (Fin (1 / 2)), ev_max = PFloat (Fin 10),
                   ev_weight = 1\<rparr>"

definition zero_stat :: stat_info where
  "zero_stat = \<lparr>st_mean = Fin 0, st_std_dev = Fin 1\<rparr>"

definition fractional_world :: world where
  "fractional_world =
     (initial_world None)\<lparr>events := [(''Emails sent'', emails_info)],
                           statistics := [(''Emails sent'', zero_stat)]\<rparr>"

definition delta_info :: event_info where
  "delta_info = \<lparr>ev_type = ''D'', ev_min = PFloat (Fin (- 5 / 2)), ev_max = PFloat (Fin 5),
                  ev_weight = 1\<rparr>"

text \<open>Two events with whole bounds, and statistics whose means lie far above the
  bounds.\<close>

definition online_info :: event_info where
  "online_info = \<lparr>ev_type = ''C'', ev_min = PInt 0, ev_max = PFloat (Fin 1440), ev_weight = 3\<rparr>"

definition sent_info :: event_info where
  "sent_info = \<lparr>ev_type = ''D'', ev_min = PInt 0, ev_max = PFloat (Fin 10), ev_weight = 1\<rparr>"

definition high_stat :: stat_info where
  "high_stat = \<lparr>st_mean = Fin 2000, st_std_dev = Fin 1\<rparr>"

definition bounded_world :: world where
  "bounded_world =
     (initial_world None)\<lparr>events := [(''Time online'', online_info), (''Emails sent'', sent_info)],
                           statistics := [(''Time online'', high_stat), (''Emails sent'', high_stat)]\<rparr>"

text \<open>What two days of generation over \<open>bounded_world\<close> give when every draw is the mean.\<close>

definition bounded_day :: "int \<Rightarrow> daily" where
  "bounded_day n = [(''Day'', PInt n), (''Time online'', PFloat (Fin 1440)), (''Emails sent'', PInt 10)]"

definition bounded_world_after :: world where
  "bounded_world_after =
     bounded_world\<lparr>gauss_calls := 4,
       log_dir := Some [(''day_1.log'', Doc (json_of_daily (bounded_day 1))),
                        (''day_2.log'', Doc (json_of_daily (bounded_day 2)))]\<rparr>"

text \<open>An event that is named like the day field of a record.\<close>

definition day_info :: event_info where
  "day_info = \<lparr>ev_type = ''C'', ev_min = PInt 0, ev_max = PFloat (Fin 100), ev_weight = 1\<rparr>"

definition day_stat :: stat_info where
  "day_stat = \<lparr>st_mean = Fin 50, st_std_dev = Fin 1\<rparr>"

definition day_world :: world where
  "day_world =
     (initial_world None)\<lparr>events := [(''Day'', day_info)], statistics := [(''Day'', day_stat)]\<rparr>"

text \<open>The files that a sequence of writes of daily records leaves in a directory.\<close>

definition write_logs :: "(nat \<times> daily) list \<Rightarrow> (string \<times> log_file) list \<Rightarrow> (string \<times> log_file) list" where
  "write_logs ps dir = fold (\<lambda>p. AList.update (log_name (fst p)) (Doc (json_of_daily (snd p)))) ps dir"

section \<open>The statistics in the words of the specification\<close>

text \<open>
  The rounding of a reported float, in two readings. In the first the reported float is
  what \<^verbatim>\<open>round(x, 2)\<close> returns on the platform. In the second it is \<open>x\<close> rounded to two
  decimal places as far as a double can be: there is a multiple \<open>k / 100\<close> of one
  hundredth that is nearest to \<open>x\<close>, and the reported float is next to it within the
  relative precision \<open>2 ^ -53\<close> of a double. An infinity and a NaN are reported as they
  are. A platform rounds to two decimal places when its \<^verbatim>\<open>round(x, 2)\<close> does this for
  every \<open>x\<close>.
\<close>

definition platform_rounded :: "'s platform \<Rightarrow> pyfloat \<Rightarrow> pyfloat \<Rightarrow> bool" where
  "platform_rounded P x y = (case x of Fin r \<Rightarrow> y = Fin (p_round2 P r) | _ \<Rightarrow> y = x)"

definition hundredth_rounded :: "pyfloat \<Rightarrow> pyfloat \<Rightarrow> bool" where
  "hundredth_rounded x y =
     (case x of
        Fin r \<Rightarrow>
          (\<exists>k s. y = Fin s \<and> \<bar>r - of_int k / 100\<bar> \<le> 1 / 200
                 \<and> \<bar>s - of_int k / 100\<bar> \<le> \<bar>of_int k / 100\<bar> / 2 ^ 53)
      | _ \<Rightarrow> y = x)"

definition two_decimals :: "'s platform \<Rightarrow> bool" where
  "two_decimals P = (\<forall>x. hundredth_rounded (Fin x) (Fin (p_round2 P x)))"

text \<open>
  \<open>total = sum(values)\<close>; \<open>mean = total / count\<close>; population
  \<open>variance = sum((x - mean)^2 for x in values) / count\<close>; \<open>std_dev = sqrt(variance)\<close>;
  \<open>mean\<close> and \<open>std_dev\<close> rounded to 2 decimal places. Each operation is the platform's:
  \<open>q\<close> is the squared deviation of \<open>x\<close> when \<^verbatim>\<open>x - mean\<close> and its square return without an
  exception, and \<open>b\<close> is the baseline of the values when every step returns. The reading
  of the rounding is the argument \<open>rounded\<close>.
\<close>

definition squared_deviation :: "'s platform \<Rightarrow> pyfloat \<Rightarrow> json \<Rightarrow> pyfloat \<Rightarrow> bool" where
  "squared_deviation P m x q =
     (\<exists>n d. json_number x = Some n \<and> p_sub P n m = Inr d \<and> p_pow2 P d = Inr q)"

definition spec_baseline ::
  "'s platform \<Rightarrow> (pyfloat \<Rightarrow> pyfloat \<Rightarrow> bool) \<Rightarrow> json list \<Rightarrow> baseline \<Rightarrow> bool" where
  "spec_baseline P rounded vals b =
     (\<exists>m qs ss var sd.
        py_sum P vals = Inr (total b)
        \<and> p_truediv P (total b) (length vals) = Inr m
        \<and> list_all2 (squared_deviation P m) vals qs
        \<and> py_sum P (map (\<lambda>q. JNum (PFloat q)) qs) = Inr ss
        \<and> p_truediv P ss (length vals) = Inr var
        \<and> p_sqrt P var = Inr sd
        \<and> rounded m (mean b)
        \<and> rounded sd (std_dev b))"

section \<open>The values that the analysis collects\<close>

text \<open>The values that the logs hold for a name: those of every file that parses to an
  object, in the order in which \<open>analyze_stats\<close> reads the files.\<close>

definition values_of_log :: "log_file \<Rightarrow> string \<Rightarrow> json list" where
  "values_of_log lf name =
     (case lf of
        Doc (JObj items) \<Rightarrow> map snd (filter (\<lambda>p. fst p = name) items)
      | _ \<Rightarrow> [])"

definition values_of_logs :: "(string \<times> log_file) list \<Rightarrow> string list \<Rightarrow> string \<Rightarrow> json list" where
  "values_of_logs dir fs name =
     concat (map (\<lambda>f. case map_of dir f of None \<Rightarrow> [] | Some lf \<Rightarrow> values_of_log lf name) fs)"

definition accumulated :: "(string \<times> log_file) list \<Rightarrow> string \<Rightarrow> json list" where
  "accumulated dir name = values_of_logs dir (log_files dir) name"

text \<open>The state of \<open>bounded_world_after\<close> with other definitions under the same names
  and without statistics.\<close>

definition redefined_world :: world where
  "redefined_world =
     bounded_world_after\<lparr>events := [(''Time online'', day_info), (''Emails sent'', logins_info)],
                          statistics := []\<rparr>"

text \<open>Eight logs with the values 2, 4, 4, 4, 5, 5, 7, 9 of one event.\<close>

definition login_day :: "string \<Rightarrow> int \<Rightarrow> int \<Rightarrow> string \<times> log_file" where
  "login_day f d v = (f, Doc (JObj [(''Day'', JNum (PInt d)), (''Logins'', JNum (PInt v))]))"

definition login_logs :: "(string \<times> log_file) list" where
  "login_logs =
     [login_day ''day_1.log'' 1 2, login_day ''day_2.log'' 2 4, login_day ''day_3.log'' 3 4,
      login_day ''day_4.log'' 4 4, login_day ''day_5.log'' 5 5, login_day ''day_6.log'' 6 5,
      login_day ''day_7.log'' 7 7, login_day ''day_8.log'' 8 9]"

definition login_world :: world where
  "login_world = (initial_world (Some login_logs))\<lparr>events := [(''Logins'', logins_info)]\<rparr>"

definition login_values :: "int list" where
  "login_values = [2, 4, 4, 4, 5, 5, 7, 9]"

text \<open>Two logs of one event: the first holds a string under its name, the second a
  number.\<close>

definition mixed_logs :: "(string \<times> log_file) list" where
  "mixed_logs =
     [(''day_1.log'', Doc (JObj [(''Day'', JNum (PInt 1)), (''Logins'', JStr ''many'')])),
      (''day_2.log'', Doc (JObj [(''Day'', JNum (PInt 2)), (''Logins'', JNum (PInt 2))]))]"

definition mixed_world :: world where
  "mixed_world = (initial_world (Some mixed_logs))\<lparr>events := [(''Logins'', logins_info)]\<rparr>"

text \<open>A log that holds an \<^verbatim>\<open>int\<close> of 401 digits for an event; and two logs that hold the
  floats \<open>0.0\<close> and \<open>2.0 ** 600\<close> for a continuous event with these bounds.\<close>

definition huge_logs :: "(string \<times> log_file) list" where
  "huge_logs =
     [(''day_1.log'', Doc (JObj [(''Day'', JNum (PInt 1)), (''Logins'', JNum (PInt (10 ^ 400)))]))]"

definition huge_world :: world where
  "huge_world = (initial_world (Some huge_logs))\<lparr>events := [(''Logins'', logins_info)]\<rparr>"

definition wide_info :: event_info where
  "wide_info = \<lparr>ev_type = ''C'', ev_min = PFloat (Fin 0), ev_max = PFloat (Fin (2 ^ 600)),
                 ev_weight = 1\<rparr>"

definition wide_logs :: "(string \<times> log_file) list" where
  "wide_logs =
     [(''day_1.log'', Doc (JObj [(''Day'', JNum (PInt 1)), (''Time online'', JNum (PFloat (Fin 0)))])),
      (''day_2.log'',
       Doc (JObj [(''Day'', JNum (PInt 2)), (''Time online'', JNum (PFloat (Fin (2 ^ 600))))]))]"

definition wide_world :: world where
  "wide_world = (initial_world (Some wide_logs))\<lparr>events := [(''Time online'', wide_info)]\<rparr>"

section \<open>The entries that a configuration file lists\<close>

text \<open>The lines that the loop of a reader visits: those after the first line, as many
  as the first line counts.\<close>

definition record_lines :: "int_reader \<Rightarrow> string list \<Rightarrow> string list" where
  "record_lines pint lines =
     (case lines of
        [] \<Rightarrow> []
      | first # _ \<Rightarrow>
          (case pint (py_strip first) of None \<Rightarrow> [] | Some n \<Rightarrow> py_slice lines 1 (n + 1)))"

text \<open>The entry of a line with the right number of fields whose fields convert, and the
  entries of a list of lines in the order of the lines. In the reversed list \<open>map_of\<close>
  finds for a name the entry of the last line that lists it.\<close>

definition event_entry :: "float_reader \<Rightarrow> int_reader \<Rightarrow> string \<Rightarrow> (string \<times> event_info) list" where
  "event_entry pfloat pint line =
     (let parts = py_split (py_strip line)
      in if length parts \<noteq> 5 then []
         else (case event_record pfloat pint parts of
                 Inl e \<Rightarrow> []
               | Inr info \<Rightarrow> [(parts ! 0, info)]))"

definition event_entries :: "float_reader \<Rightarrow> int_reader \<Rightarrow> string list \<Rightarrow> (string \<times> event_info) list" where
  "event_entries pfloat pint lines = concat (map (event_entry pfloat pint) lines)"

definition stat_entry :: "float_reader \<Rightarrow> string \<Rightarrow> (string \<times> stat_info) list" where
  "stat_entry pfloat line =
     (let parts = py_split (py_strip line)
      in if length parts \<noteq> 4 then []
         else (case stat_record pfloat parts of
                 Inl e \<Rightarrow> []
               | Inr info \<Rightarrow> [(parts ! 0, info)]))"

definition stat_entries :: "float_reader \<Rightarrow> string list \<Rightarrow> (string \<times> stat_info) list" where
  "stat_entries pfloat lines = concat (map (stat_entry pfloat) lines)"

text \<open>A definitions file that counts three records, the second with four fields only;
  a statistics file with a record of three fields; and a second definitions file that
  lists one name twice.\<close>

definition events_file :: "string list" where
  "events_file =
     [''3\<newline>'', ''Logins:D:::2\<newline>'', ''Time online:C:0:1440\<newline>'', ''Emails sent:D::10:1\<newline>'']"

definition stats_file :: "string list" where
  "stats_file = [''2\<newline>'', ''Logins:4:1.5:\<newline>'', ''Emails sent:10:3\<newline>'']"

definition events_file_again :: "string list" where
  "events_file_again = [''2\<newline>'', ''Logins:D:0:50:2\<newline>'', ''Logins:C:1:99:5\<newline>'']"

definition world_of_events_file :: world where
  "world_of_events_file =
     (initial_world None)
       \<lparr>events := [(''Logins'', logins_info), (''Emails sent'', sent_info)],
        stdout := [''Skipping invalid line in Events.txt: Time online:C:0:1440'']\<rparr>"

definition world_of_stats_file :: world where
  "world_of_stats_file =
     (initial_world None)
       \<lparr>statistics := [(''Logins'', logins_stat)],
        stdout := [''Skipping invalid line in Stats.txt: Emails sent:10:3'']\<rparr>"

definition world_of_events_file_again :: world where
  "world_of_events_file_again =
     world_of_events_file
       \<lparr>events := [(''Logins'', \<lparr>ev_type = ''C'', ev_min = PFloat (Fin 1), ev_max = PFloat (Fin 99),
                                   ev_weight = 5\<rparr>),
                   (''Emails sent'', sent_info)]\<rparr>"

text \<open>The record of day 1 over \<open>fractional_world\<close> and over \<open>day_world\<close> when every draw is
  the mean.\<close>

definition fractional_day :: daily where
  "fractional_day = [(''Day'', PInt 1), (''Emails sent'', PInt 0)]"

definition day_world_record :: daily where
  "day_world_record = [(''Day'', PFloat (Fin 50))]"

section \<open>The order in which the logs are read\<close>

text \<open>
  C5. \<open>analyze_stats\<close> reads the log files in the order of \<open>log_files\<close>, which sorts
  the names as strings. For a directory holding the logs of days 1, 2 and 10 that order
  is day 1, day 10, day 2: the log of day 10 is read before the log of day 2, so the
  files are not processed by ascending day index.
\<close>

theorem log_files_day_10_before_day_2:
  "log_files [(''day_1.log'', d1), (''day_2.log'', d2), (''day_10.log'', d10)]
     = [''day_1.log'', ''day_10.log'', ''day_2.log'']"
  by (simp add: log_files_def is_log_name_def startswith_def endswith_def)

section \<open>Zero days\<close>

lemma baseline_loop_empty_vals:
  "\<forall>p \<in> set ts. snd p = [] \<Longrightarrow> baseline_loop P ts acc = Inr acc"
  by (induction ts arbitrary: acc) auto

lemma analyze_stats_no_directory:
  "log_dir w = None \<Longrightarrow> analyze_stats P w = Inl FileNotFoundError"
  by (simp add: analyze_stats_def)

text \<open>
  C8, as stated, fails for the analysis over a log directory that does not exist:
  \<^verbatim>\<open>os.listdir\<close> raises FileNotFoundError outside the \<^verbatim>\<open>try\<close> of \<open>analyze_stats\<close>.
\<close>

theorem analyze_stats_missing_directory_counterexample:
  "analyze_stats exact_platform (initial_world None) = Inl FileNotFoundError"
  by (simp add: analyze_stats_def initial_world_def)

text \<open>
  C8, amended. For \<open>days = 0\<close> the generator returns the empty list of records; a log
  directory that does not exist is created empty, and one that exists keeps exactly its
  entries. The analysis that follows the generator finds the directory: over the empty
  directory it returns the empty baseline map, raises nothing and prints nothing. Over a
  directory that does not exist the analysis raises FileNotFoundError.
\<close>

theorem zero_days_empty_records_and_baseline:
  "generate_events P gauss 0 (w\<lparr>log_dir := None\<rparr>) = Inr ([], w\<lparr>log_dir := Some []\<rparr>)
   \<and> generate_events P gauss 0 (w\<lparr>log_dir := Some d\<rparr>) = Inr ([], w\<lparr>log_dir := Some d\<rparr>)
   \<and> analyze_stats P (w\<lparr>log_dir := Some []\<rparr>) = Inr ([], w\<lparr>log_dir := Some []\<rparr>)
   \<and> analyze_stats P (w\<lparr>log_dir := None\<rparr>) = Inl FileNotFoundError"
  by (simp add: generate_events_def analyze_stats_def log_files_def baseline_loop_empty_vals)

section \<open>A discrete event without an upper bound\<close>

lemma py_int_error: "py_int x = Inl e \<Longrightarrow> e = OverflowError \<or> e = ValueError"
  by (cases x rule: py_int.cases) auto

lemma sample_value_error:
  "sample_value P info raw = Inl e \<Longrightarrow> e = OverflowError \<or> e = ValueError"
  by (auto simp: sample_value_def split: if_splits sum.splits dest: py_int_error)

lemma sample_value_inf_max:
  "ev_type info \<noteq> ''C'' \<Longrightarrow> ev_max info = PFloat PInf \<Longrightarrow> \<exists>e. sample_value P info raw = Inl e"
  by (auto simp: sample_value_def split: sum.splits)

text \<open>When the lower bound converts and the draw is finite, the exception is the
  OverflowError of \<^verbatim>\<open>int(float("inf"))\<close>.\<close>

lemma sample_value_inf_max_overflow:
  "ev_type info \<noteq> ''C'' \<Longrightarrow> ev_max info = PFloat PInf \<Longrightarrow> py_int (ev_min info) = Inr lo
    \<Longrightarrow> sample_value P info (Fin r) = Inl OverflowError"
  by (auto simp: sample_value_def split: sum.splits)

text \<open>An empty \<^verbatim>\<open>max\<close> field of a definitions record is read as that infinite bound.\<close>

lemma event_record_empty_max:
  "parts ! 3 = [] \<Longrightarrow> event_record pfloat pint parts = Inr info \<Longrightarrow> ev_max info = PFloat PInf"
  by (auto simp: event_record_def Let_def split: option.splits if_splits)

lemma sample_events_error:
  "sample_events P gauss sts evs d k = Inl e \<Longrightarrow> e = OverflowError \<or> e = ValueError"
  by (induction evs arbitrary: d k) (auto split: option.splits sum.splits dest: sample_value_error)

lemma sample_events_inf_max:
  "(name, info) \<in> set evs \<Longrightarrow> map_of sts name = Some st \<Longrightarrow> ev_type info \<noteq> ''C''
    \<Longrightarrow> ev_max info = PFloat PInf \<Longrightarrow> \<exists>e. sample_events P gauss sts evs d k = Inl e"
proof (induction evs arbitrary: d k)
  case Nil
  then show ?case by simp
next
  case (Cons p evs)
  obtain n i where p: "p = (n, i)" by (cases p)
  show ?case
  proof (cases "p = (name, info)")
    case True
    with Cons.prems p sample_value_inf_max [of info P "gauss k (st_mean st) (st_std_dev st)"]
    show ?thesis by auto
  next
    case False
    with Cons.prems have "(name, info) \<in> set evs" by auto
    from Cons.IH [OF this Cons.prems(2-4)] p show ?thesis
      by (auto split: option.splits sum.splits)
  qed
qed

text \<open>
  C9. If an event that has statistics is not continuous and its upper bound is the
  infinite float, then for every number of days from 1 on and for every sequence of
  draws \<open>generate_events\<close> raises: it returns no records. The exception is an
  OverflowError or a ValueError, the two that \<^verbatim>\<open>int\<close> of a float can raise.
\<close>

theorem discrete_infinite_max_raises:
  assumes "(name, info) \<in> set (events w)" and "map_of (statistics w) name = Some st"
    and "ev_type info \<noteq> ''C''" and "ev_max info = PFloat PInf" and "1 \<le> days"
  shows "generate_events P gauss days w = Inl OverflowError
       \<or> generate_events P gauss days w = Inl ValueError"
proof -
  let ?w = "if log_dir w = None then w\<lparr>log_dir := Some []\<rparr> else w"
  from assms(5) have "0 < nat days" by simp
  then have days: "[0..<nat days] = 0 # [Suc 0..<nat days]"
    by (rule upt_conv_Cons)
  have ev: "events ?w = events w" "statistics ?w = statistics w" by auto
  from sample_events_inf_max [OF assms(1-4)]
  obtain e where e: "sample_events P gauss (statistics w) (events w) [(''Day'', PInt (int 0 + 1))]
      (gauss_calls ?w) = Inl e" by blast
  then have "generate_events P gauss days w = Inl e"
    unfolding generate_events_def days by (simp add: ev del: One_nat_def)
  with sample_events_error [OF e] show ?thesis by auto
qed

theorem discrete_infinite_max_raises_witness:
  "(''Logins'', logins_info) \<in> set (events logins_world)
   \<and> map_of (statistics logins_world) ''Logins'' = Some logins_stat
   \<and> ev_type logins_info \<noteq> ''C'' \<and> ev_max logins_info = PFloat PInf \<and> (1::int) \<le> 3
   \<and> (generate_events exact_platform gauss_mean 3 logins_world = Inl OverflowError
      \<or> generate_events exact_platform gauss_mean 3 logins_world = Inl ValueError)"
proof -
  have h1: "(''Logins'', logins_info) \<in> set (events logins_world)"
    by (simp add: logins_world_def)
  have h2: "map_of (statistics logins_world) ''Logins'' = Some logins_stat"
    by (simp add: logins_world_def)
  have h3: "ev_type logins_info \<noteq> ''C''" by (simp add: logins_info_def)
  have h4: "ev_max logins_info = PFloat PInf" by (simp add: logins_info_def)
  have h5: "(1::int) \<le> 3" by simp
  note c = discrete_infinite_max_raises [OF h1 h2 h3 h4 h5, of exact_platform gauss_mean]
  show ?thesis by (intro conjI h1 h2 h3 h4 h5 c)
qed

section \<open>The value of a discrete event\<close>

lemma trunc_of_int [simp]: "trunc (of_int i) = i"
  by (simp add: trunc_def)

lemma trunc_nonneg: "0 \<le> r \<Longrightarrow> trunc r = \<lfloor>r\<rfloor>"
  by (simp add: trunc_def)

lemma py_int_num_val: "num_val x = Fin a \<Longrightarrow> py_int x = Inr (trunc a)"
  by (cases x rule: py_int.cases) auto

text \<open>
  C6, as stated, fails: for the bounds \<open>-2.5\<close> and \<open>5\<close> and the draw \<open>-10\<close> the code
  stores \<open>-2\<close>, because \<^verbatim>\<open>int(-2.5)\<close> is \<open>-2\<close>, while clamping into the floors of the
  bounds gives \<open>-3\<close>.
\<close>

theorem discrete_value_floor_counterexample:
  "sample_value exact_platform delta_info (Fin (- 10)) = Inr (PInt (- 2))
   \<and> spec_discrete_value (- 5 / 2) 5 (- 10) = - 3"
  by (simp add: sample_value_def delta_info_def spec_discrete_value_def trunc_def)

text \<open>
  C6, amended. For an event that is not continuous, with finite bounds and a finite draw,
  the stored value is the draw truncated toward zero and then clamped between the bounds
  truncated toward zero. Where both bounds are not negative this is the clamp between
  their floors.
\<close>

theorem discrete_value_truncates_bounds:
  assumes "ev_type info \<noteq> ''C''" and "num_val (ev_min info) = Fin a"
    and "num_val (ev_max info) = Fin b"
  shows "sample_value P info (Fin r) = Inr (PInt (max (trunc a) (min (trunc r) (trunc b))))
       \<and> (0 \<le> a \<and> 0 \<le> b \<longrightarrow>
            sample_value P info (Fin r) = Inr (PInt (spec_discrete_value a b r)))"
  using assms
  by (simp add: sample_value_def py_int_num_val spec_discrete_value_def trunc_nonneg)

theorem discrete_value_truncates_bounds_witness:
  "ev_type delta_info \<noteq> ''C'' \<and> num_val (ev_min delta_info) = Fin (- 5 / 2)
   \<and> num_val (ev_max delta_info) = Fin 5
   \<and> sample_value exact_platform delta_info (Fin (- 10))
       = Inr (PInt (max (trunc (- 5 / 2)) (min (trunc (- 10)) (trunc 5))))
   \<and> ev_type emails_info \<noteq> ''C'' \<and> num_val (ev_min emails_info) = Fin (1 / 2)
   \<and> num_val (ev_max emails_info) = Fin 10 \<and> (0::real) \<le> 1 / 2 \<and> (0::real) \<le> 10
   \<and> sample_value exact_platform emails_info (Fin (25 / 2)) = Inr (PInt (spec_discrete_value (1 / 2) 10 (25 / 2)))"
proof -
  have h1: "ev_type delta_info \<noteq> ''C''" by (simp add: delta_info_def)
  have h2: "num_val (ev_min delta_info) = Fin (- 5 / 2)" by (simp add: delta_info_def)
  have h3: "num_val (ev_max delta_info) = Fin 5" by (simp add: delta_info_def)
  note c = discrete_value_truncates_bounds [OF h1 h2 h3, of exact_platform "- 10", THEN conjunct1]
  have k1: "ev_type emails_info \<noteq> ''C''" by (simp add: emails_info_def)
  have k2: "num_val (ev_min emails_info) = Fin (1 / 2)" by (simp add: emails_info_def)
  have k3: "num_val (ev_max emails_info) = Fin 10" by (simp add: emails_info_def)
  have k4: "(0::real) \<le> 1 / 2" by simp
  have k5: "(0::real) \<le> 10" by simp
  note d = discrete_value_truncates_bounds [OF k1 k2 k3, of exact_platform "25 / 2", THEN conjunct2,
      THEN mp, OF conjI [OF k4 k5]]
  show ?thesis by (intro conjI h1 h2 h3 c k1 k2 k3 k4 k5 d)
qed

section \<open>The exact platform within the range of the doubles\<close>

lemma float_limit_above: "x \<le> 2 ^ 53 \<Longrightarrow> \<not> float_limit \<le> x"
proof -
  assume x: "x \<le> 2 ^ 53"
  have "(2::real) ^ 53 < 2 ^ 1024" by (rule power_strict_increasing) simp_all
  with x show "\<not> float_limit \<le> x" unfolding float_limit_def by linarith
qed

lemma float_limit_below: "- (2 ^ 53) \<le> x \<Longrightarrow> \<not> x \<le> - float_limit"
  using float_limit_above [of "- x"] by simp

lemma exact_fin_small: "\<bar>r\<bar> \<le> 2 ^ 53 \<Longrightarrow> exact_fin r = Fin r"
  using float_limit_above [of r] float_limit_below [of r] by (simp add: exact_fin_def abs_le_iff)

lemma small_real: "small i \<Longrightarrow> \<bar>real_of_int i\<bar> \<le> 2 ^ 53"
proof -
  assume "small i"
  then have "\<bar>i\<bar> \<le> 2 ^ 53" by (simp add: small_def)
  then have "real_of_int \<bar>i\<bar> \<le> real_of_int (2 ^ 53)" by (simp only: of_int_le_iff)
  then show ?thesis by simp
qed

lemma exact_float_small: "small i \<Longrightarrow> exact_float (PInt i) = Inr (Fin (of_int i))"
  using float_limit_above [OF small_real, of i] by simp

section \<open>The bounds of a sampled value\<close>

lemma fle_refl: "f \<noteq> NaN \<Longrightarrow> fle f f"
  by (cases f) auto

lemma fle_trans: "fle a b \<Longrightarrow> fle b c \<Longrightarrow> fle a c"
  by (cases a; cases b; cases c) auto

lemma flt_imp_fle: "flt a b \<Longrightarrow> fle a b"
  by (cases a; cases b) auto

lemma not_flt_imp_fle: "\<not> flt a b \<Longrightarrow> a \<noteq> NaN \<Longrightarrow> b \<noteq> NaN \<Longrightarrow> fle b a"
  by (cases a; cases b) auto

lemma fle_not_NaN: "fle a b \<Longrightarrow> a \<noteq> NaN \<and> b \<noteq> NaN"
  by (cases a; cases b) auto

lemma flt_NaN_right [simp]: "\<not> flt a NaN"
  by (cases a) auto

text \<open>The exact platform rounds monotonically and leaves whole numbers as they are.\<close>

lemma round_half_even_bounds: "\<lfloor>x\<rfloor> \<le> round_half_even x \<and> round_half_even x \<le> \<lfloor>x\<rfloor> + 1"
  by (simp add: round_half_even_def Let_def)

lemma round_half_even_mono:
  assumes "x \<le> y"
  shows "round_half_even x \<le> round_half_even y"
proof (cases "\<lfloor>x\<rfloor> = \<lfloor>y\<rfloor>")
  case True
  with assms have "x - of_int \<lfloor>x\<rfloor> \<le> y - of_int \<lfloor>y\<rfloor>" by simp
  with True show ?thesis
    by (auto simp: round_half_even_def Let_def)
next
  case False
  with assms have "\<lfloor>x\<rfloor> < \<lfloor>y\<rfloor>"
    using floor_mono [OF assms] by linarith
  with round_half_even_bounds [of x] round_half_even_bounds [of y] show ?thesis
    by linarith
qed

lemma exact_round2_mono: "x \<le> y \<Longrightarrow> exact_round2 x \<le> exact_round2 y"
  by (simp add: exact_round2_def round_half_even_mono divide_right_mono)

lemma round_half_even_of_int [simp]: "round_half_even (of_int i) = i"
  by (simp add: round_half_even_def)

lemma exact_round2_of_int [simp]: "exact_round2 (of_int i) = of_int i"
proof -
  have "of_int i * (100::real) = of_int (i * 100)" by simp
  then have "round_half_even (of_int i * 100) = i * 100"
    by (simp only: round_half_even_of_int)
  then show ?thesis by (simp add: exact_round2_def)
qed

lemma round_monotone_exact_platform: "round_monotone exact_platform"
  by (simp add: round_monotone_def exact_platform_def exact_round2_mono)

text \<open>The clamp of the continuous branch is never below the lower bound, and never above
  the upper bound when the bounds are ordered.\<close>

lemma clamp_lower:
  assumes "num_val lo \<noteq> NaN"
  shows "py_le lo (py_max lo x)"
  using assms by (auto simp: py_max_def py_lt_def py_le_def fle_refl dest: flt_imp_fle)

lemma clamp_upper:
  assumes "py_le lo hi"
  shows "py_le (py_max lo (py_min x hi)) hi"
proof -
  from assms have nn: "num_val lo \<noteq> NaN" "num_val hi \<noteq> NaN"
    by (auto simp: py_le_def dest: fle_not_NaN)
  have inner: "py_min x hi = x \<and> (num_val x = NaN \<or> fle (num_val x) (num_val hi)) \<or> py_min x hi = hi"
    using nn by (auto simp: py_min_def py_lt_def dest: not_flt_imp_fle)
  show ?thesis
    using assms nn inner
    by (auto simp: py_max_def py_lt_def py_le_def fle_refl dest: flt_imp_fle not_flt_imp_fle)
qed

lemma fround2_mono: "round_monotone P \<Longrightarrow> fle a b \<Longrightarrow> fle (fround2 P a) (fround2 P b)"
  by (cases a; cases b) (auto simp: round_monotone_def)

text \<open>Rounding a number that is not below a bound the rounding of which is not below the
  bound gives a number that is not below the bound; and the same from above. An \<^verbatim>\<open>int\<close>
  is not rounded.\<close>

lemma py_round2_lower:
  assumes "round_monotone P" and "fle b (fround2 P b)" and "fle b (num_val x)"
  shows "fle b (num_val (py_round2 P x))"
proof (cases x)
  case (PInt i)
  with assms(3) show ?thesis by simp
next
  case (PFloat f)
  with assms(3) have "fle (fround2 P b) (fround2 P f)"
    by (simp add: fround2_mono [OF assms(1)])
  with assms(2) PFloat show ?thesis by (auto intro: fle_trans)
qed

lemma py_round2_upper:
  assumes "round_monotone P" and "fle (fround2 P b) b" and "fle (num_val x) b"
  shows "fle (num_val (py_round2 P x)) b"
proof (cases x)
  case (PInt i)
  with assms(3) show ?thesis by simp
next
  case (PFloat f)
  with assms(3) have "fle (fround2 P f) (fround2 P b)"
    by (simp add: fround2_mono [OF assms(1)])
  with assms(2) PFloat show ?thesis by (auto intro: fle_trans)
qed

lemma trunc_mono:
  assumes "a \<le> b"
  shows "trunc a \<le> trunc b"
proof (cases "0 \<le> a")
  case True
  with assms show ?thesis by (simp add: trunc_def floor_mono)
next
  case False
  show ?thesis
  proof (cases "0 \<le> b")
    case True
    from False have "\<lceil>a\<rceil> \<le> 0" by (simp add: ceiling_le_iff)
    moreover from True have "0 \<le> \<lfloor>b\<rfloor>" by simp
    ultimately have "\<lceil>a\<rceil> \<le> \<lfloor>b\<rfloor>" by linarith
    with False True show ?thesis by (simp add: trunc_def)
  next
    case b: False
    with False assms show ?thesis by (simp add: trunc_def ceiling_mono)
  qed
qed

lemma sample_value_lower:
  assumes "sample_value P info raw = Inr v" and "ev_type info = ''C'' \<longrightarrow> round_monotone P"
    and "lower_kept P info"
  shows "py_le (ev_min info) v"
proof (cases "ev_type info = ''C''")
  case True
  with assms(2) have mono: "round_monotone P" by simp
  from True assms(3) have kept: "fle (num_val (ev_min info)) (fround2 P (num_val (ev_min info)))"
    by (simp add: lower_kept_def)
  then have "num_val (ev_min info) \<noteq> NaN" by (auto dest: fle_not_NaN)
  from clamp_lower [OF this]
  have "fle (num_val (ev_min info))
          (num_val (py_max (ev_min info) (py_min (PFloat raw) (ev_max info))))"
    by (simp add: py_le_def)
  from py_round2_lower [OF mono kept this] assms(1) True show ?thesis
    by (auto simp: sample_value_def py_le_def)
next
  case False
  with assms(1) obtain lo x hi where "py_int (ev_min info) = Inr lo" "v = PInt (max lo (min x hi))"
    by (auto simp: sample_value_def split: sum.splits)
  with assms(3) False show ?thesis
    by (cases "num_val (ev_min info)") (auto simp: lower_kept_def py_le_def)
qed

lemma sample_value_upper:
  assumes "sample_value P info raw = Inr v" and "ev_type info = ''C'' \<longrightarrow> round_monotone P"
    and "upper_kept P info" and "py_le (ev_min info) (ev_max info)"
  shows "py_le v (ev_max info)"
proof (cases "ev_type info = ''C''")
  case True
  with assms(2) have mono: "round_monotone P" by simp
  from True assms(3) have kept: "fle (fround2 P (num_val (ev_max info))) (num_val (ev_max info))"
    by (simp add: upper_kept_def)
  from clamp_upper [OF assms(4)]
  have "fle (num_val (py_max (ev_min info) (py_min (PFloat raw) (ev_max info))))
          (num_val (ev_max info))"
    by (simp add: py_le_def)
  from py_round2_upper [OF mono kept this] assms(1) True show ?thesis
    by (auto simp: sample_value_def py_le_def)
next
  case False
  with assms(1) obtain lo x hi where
    c: "py_int (ev_min info) = Inr lo" "py_int (ev_max info) = Inr hi"
       "v = PInt (max lo (min x hi))"
    by (auto simp: sample_value_def split: sum.splits)
  from c(1) obtain a where a: "num_val (ev_min info) = Fin a" "lo = trunc a"
    by (cases "ev_min info" rule: py_int.cases) auto
  from c(2) obtain b where b: "num_val (ev_max info) = Fin b" "hi = trunc b"
    by (cases "ev_max info" rule: py_int.cases) auto
  from assms(4) a b have "a \<le> b" by (simp add: py_le_def)
  then have "trunc a \<le> trunc b" by (rule trunc_mono)
  with assms(3) False a b c show ?thesis
    by (auto simp: upper_kept_def py_le_def)
qed

text \<open>What the inner loop leaves in the record of a day.\<close>

lemma sample_events_other:
  "sample_events P gauss sts evs d k = Inr (d', k') \<Longrightarrow> name \<notin> fst ` set evs
    \<Longrightarrow> map_of d' name = map_of d name"
proof (induction evs arbitrary: d k)
  case Nil
  then show ?case by simp
next
  case (Cons p evs)
  obtain n i where p: "p = (n, i)" by (cases p)
  from Cons.prems p have ne: "n \<noteq> name" and rest: "name \<notin> fst ` set evs" by auto
  from Cons.prems(1) p show ?case
  proof (cases "map_of sts n")
    case None
    with Cons.prems(1) p Cons.IH [OF _ rest] show ?thesis by simp
  next
    case (Some st)
    with Cons.prems(1) p obtain v where
      v: "sample_events P gauss sts evs (AList.update n v d) (Suc k) = Inr (d', k')"
      by (auto split: sum.splits)
    from Cons.IH [OF v rest] ne show ?thesis by (simp add: update_conv')
  qed
qed

lemma sample_events_value:
  assumes "sample_events P gauss sts evs d k = Inr (d', k')" and "distinct (map fst evs)"
    and "(name, info) \<in> set evs" and "map_of sts name = Some st"
  shows "\<exists>v j. map_of d' name = Some v
           \<and> sample_value P info (gauss j (st_mean st) (st_std_dev st)) = Inr v"
  using assms
proof (induction evs arbitrary: d k)
  case Nil
  then show ?case by simp
next
  case (Cons p evs)
  obtain n i where p: "p = (n, i)" by (cases p)
  show ?case
  proof (cases "p = (name, info)")
    case True
    with p have eq: "n = name" "i = info" by auto
    with Cons.prems(1,4) p obtain v where
      v: "sample_value P info (gauss k (st_mean st) (st_std_dev st)) = Inr v"
      and rest: "sample_events P gauss sts evs (AList.update name v d) (Suc k) = Inr (d', k')"
      by (auto split: sum.splits)
    from Cons.prems(2) p eq have "name \<notin> fst ` set evs" by auto
    from sample_events_other [OF rest this] have "map_of d' name = Some v"
      by (simp add: update_conv')
    with v show ?thesis by blast
  next
    case False
    with Cons.prems(3) have mem: "(name, info) \<in> set evs" by auto
    from Cons.prems(2) have dist: "distinct (map fst evs)" by simp
    from Cons.prems(1) p obtain d1 k1 where
      "sample_events P gauss sts evs d1 k1 = Inr (d', k')"
      by (auto split: option.splits sum.splits)
    from Cons.IH [OF this dist mem Cons.prems(4)] show ?thesis .
  qed
qed

text \<open>Every record that the loop over the days adds comes from the inner loop, run on the
  dictionaries of the state the generator was called in.\<close>

lemma generate_days_records:
  assumes "generate_days P gauss ds w acc = Inr (recs, w')" and "r \<in> set recs"
  shows "r \<in> set acc
       \<or> (\<exists>day k k'. sample_events P gauss (statistics w) (events w)
                        [(''Day'', PInt (int day + 1))] k = Inr (r, k'))"
  using assms
proof (induction ds arbitrary: w acc)
  case Nil
  then show ?case by simp
next
  case (Cons day ds)
  from Cons.prems(1) obtain daily k dir where
    s: "sample_events P gauss (statistics w) (events w) [(''Day'', PInt (int day + 1))]
          (gauss_calls w) = Inr (daily, k)"
    and g: "generate_days P gauss ds
          (w\<lparr>gauss_calls := k,
             log_dir := Some (AList.update (log_name day) (Doc (json_of_daily daily)) dir)\<rparr>)
          (acc @ [daily]) = Inr (recs, w')"
    by (auto split: sum.splits option.splits)
  from Cons.IH [OF g Cons.prems(2)] s show ?case by auto
qed

lemma generate_bounded_world:
  "generate_events exact_platform gauss_mean 2 bounded_world
     = Inr ([bounded_day 1, bounded_day 2], bounded_world_after)"
  by (simp add: generate_events_def bounded_world_def bounded_world_after_def bounded_day_def
      initial_world_def gauss_mean_def exact_platform_def
      online_info_def sent_info_def high_stat_def sample_value_def py_max_def py_min_def
      py_lt_def py_le_def trunc_def exact_round2_def round_half_even_def
      log_name_def str_nat.simps digit_char_def json_of_daily_def upt_rec numeral_2_eq_2)

text \<open>
  C1, as stated, fails. A discrete event with the lower bound \<open>0.5\<close> and a draw of \<open>0\<close> is
  clamped into \<open>[int(0.5), 10]\<close>, that is \<open>[0, 10]\<close>, and stores \<open>0\<close>, below the bound.
\<close>

theorem bounds_counterexample:
  "map_sum id fst (generate_events exact_platform gauss_mean 1 fractional_world)
     = Inr [fractional_day]
   \<and> map_of fractional_day ''Emails sent'' = Some (PInt 0)
   \<and> \<not> within_bounds emails_info (PInt 0)"
  by (simp add: generate_events_def fractional_world_def initial_world_def gauss_mean_def
      emails_info_def zero_stat_def sample_value_def py_max_def py_min_def
      py_lt_def py_le_def trunc_def within_bounds_def fractional_day_def)

text \<open>The same happens to a continuous event on every platform that rounds its lower
  bound down, as \<^verbatim>\<open>round(0.3125, 2)\<close> is below \<open>0.3125\<close>: a draw below the bound is clamped
  to the bound and then rounded.\<close>

lemma continuous_lower_bound_loosened:
  assumes "p_round2 P (5 / 16) < 5 / 16"
  shows "\<exists>v. sample_value P time_info (Fin 0) = Inr v \<and> \<not> within_bounds time_info v"
  using assms
  by (simp add: sample_value_def time_info_def py_max_def py_min_def py_lt_def py_le_def
      within_bounds_def)

text \<open>The conditions of the amended claim cannot be dropped. If every draw of a discrete
  event, or of a continuous event with float bounds, gives a value within the bounds,
  then the bounds are ordered and the conversion loosens neither of them.\<close>

lemma kept_bounds_necessary_discrete:
  assumes "ev_type info \<noteq> ''C''"
    and "\<forall>raw. \<exists>v. sample_value P info (Fin raw) = Inr v \<and> within_bounds info v"
  shows "py_le (ev_min info) (ev_max info) \<and> lower_kept P info \<and> upper_kept P info"
proof -
  from assms(2) obtain v0 where "sample_value P info (Fin 0) = Inr v0" by blast
  with assms(1) obtain lo hi where
    lo: "py_int (ev_min info) = Inr lo" and hi: "py_int (ev_max info) = Inr hi"
    by (auto simp: sample_value_def split: sum.splits)
  have val: "sample_value P info (Fin (of_int k)) = Inr (PInt (max lo (min k hi)))" for k
    using assms(1) lo hi by (simp add: sample_value_def)
  from assms(2) val [of lo] have low: "within_bounds info (PInt (max lo (min lo hi)))"
    by (metis sum.inject(2))
  from assms(2) val [of "max lo hi"] have up: "within_bounds info (PInt (max lo (min (max lo hi) hi)))"
    by (metis sum.inject(2))
  have l: "py_le (ev_min info) (PInt lo)"
  proof (cases "lo \<le> hi")
    case True
    with low show ?thesis by (simp add: within_bounds_def max_def min_def)
  next
    case False
    with low show ?thesis by (simp add: within_bounds_def max_def min_def)
  qed
  have u: "py_le (PInt (max lo hi)) (ev_max info)"
    using up by (simp add: within_bounds_def max_def min_def split: if_splits)
  have "fle (Fin (of_int hi)) (Fin (of_int (max lo hi)))" by simp
  from fle_trans [OF this] u have u': "py_le (PInt hi) (ev_max info)"
    by (simp add: py_le_def)
  from low have "py_le (ev_min info) (ev_max info)"
    unfolding within_bounds_def py_le_def by (blast intro: fle_trans)
  with l u' assms(1) lo hi show ?thesis
    by (simp add: lower_kept_def upper_kept_def)
qed

lemma kept_bounds_necessary_continuous:
  assumes "ev_type info = ''C''" and "ev_min info = PFloat lo" and "ev_max info = PFloat hi"
    and "\<forall>raw. \<exists>v. sample_value P info raw = Inr v \<and> within_bounds info v"
  shows "py_le (ev_min info) (ev_max info) \<and> lower_kept P info \<and> upper_kept P info"
proof -
  have val: "sample_value P info raw
      = Inr (py_round2 P (py_max (PFloat lo) (py_min (PFloat raw) (PFloat hi))))" for raw
    using assms(1-3) by (simp add: sample_value_def)
  from assms(4) val [of NInf]
  have low: "within_bounds info (py_round2 P (py_max (PFloat lo) (py_min (PFloat NInf) (PFloat hi))))"
    by (metis sum.inject(2))
  from assms(4) val [of PInf]
  have up: "within_bounds info (py_round2 P (py_max (PFloat lo) (py_min (PFloat PInf) (PFloat hi))))"
    by (metis sum.inject(2))
  from low have ord: "fle lo hi"
    unfolding within_bounds_def py_le_def assms(2,3) num_val.simps by (blast intro: fle_trans)
  then have nn: "lo \<noteq> NaN" "hi \<noteq> NaN" by (auto dest: fle_not_NaN)
  have "py_max (PFloat lo) (py_min (PFloat NInf) (PFloat hi)) = PFloat lo"
    using nn by (cases lo; cases hi) (auto simp: py_max_def py_min_def py_lt_def)
  with low have l: "fle lo (fround2 P lo)"
    by (simp add: within_bounds_def py_le_def assms(2,3))
  have "num_val (py_max (PFloat lo) (py_min (PFloat PInf) (PFloat hi))) = hi"
    using nn ord by (cases lo; cases hi) (auto simp: py_max_def py_min_def py_lt_def)
  then have "py_max (PFloat lo) (py_min (PFloat PInf) (PFloat hi)) = PFloat hi"
    by (auto simp: py_max_def py_min_def split: if_splits)
  with up have u: "fle (fround2 P hi) hi"
    by (simp add: within_bounds_def py_le_def assms(2,3))
  from ord l u assms(1-3) show ?thesis
    by (simp add: py_le_def lower_kept_def upper_kept_def)
qed

text \<open>
  C1, amended. Let the generator return, let the event be defined once and have
  statistics, and, if the event is continuous, let \<^verbatim>\<open>round(x, 2)\<close> keep the order of
  floats. Then every record stores a value \<open>v\<close> for this event, whatever the draws are, and
  \<^item> \<open>min \<le> v\<close> when the conversion of the event's type does not lower the lower bound
    (\<^verbatim>\<open>min <= round(float(min), 2)\<close> for a continuous event, \<^verbatim>\<open>min <= int(min)\<close> for a
    discrete one);
  \<^item> \<open>v \<le> max\<close> when the bounds are ordered and the conversion does not raise the upper
    bound (\<^verbatim>\<open>round(float(max), 2) <= max\<close>, respectively \<^verbatim>\<open>int(max) <= max\<close>).
\<close>

theorem sampled_value_within_bounds:
  assumes "generate_events P gauss days w = Inr (recs, w')" and "r \<in> set recs"
    and "distinct (map fst (events w))"
    and "(name, info) \<in> set (events w)" and "map_of (statistics w) name = Some st"
    and "ev_type info = ''C'' \<longrightarrow> round_monotone P"
  shows "\<exists>v. map_of r name = Some v
           \<and> (lower_kept P info \<longrightarrow> py_le (ev_min info) v)
           \<and> (py_le (ev_min info) (ev_max info) \<and> upper_kept P info \<longrightarrow> py_le v (ev_max info))"
proof -
  let ?w = "if log_dir w = None then w\<lparr>log_dir := Some []\<rparr> else w"
  have ev: "events ?w = events w" "statistics ?w = statistics w" by auto
  from assms(1) have "generate_days P gauss [0..<nat days] ?w [] = Inr (recs, w')"
    by (simp add: generate_events_def)
  from generate_days_records [OF this assms(2)] obtain day k k' where
    "sample_events P gauss (statistics w) (events w) [(''Day'', PInt (int day + 1))] k = Inr (r, k')"
    unfolding ev by auto
  from sample_events_value [OF this assms(3,4,5)] obtain v j where
    v: "map_of r name = Some v" "sample_value P info (gauss j (st_mean st) (st_std_dev st)) = Inr v"
    by blast
  from sample_value_lower [OF v(2) assms(6)] sample_value_upper [OF v(2) assms(6)] v(1)
  show ?thesis by blast
qed

theorem sampled_value_within_bounds_witness:
  "generate_events exact_platform gauss_mean 2 bounded_world
     = Inr ([bounded_day 1, bounded_day 2], bounded_world_after)
   \<and> bounded_day 2 \<in> set [bounded_day 1, bounded_day 2]
   \<and> distinct (map fst (events bounded_world))
   \<and> (''Time online'', online_info) \<in> set (events bounded_world)
   \<and> (''Emails sent'', sent_info) \<in> set (events bounded_world)
   \<and> map_of (statistics bounded_world) ''Time online'' = Some high_stat
   \<and> map_of (statistics bounded_world) ''Emails sent'' = Some high_stat
   \<and> round_monotone exact_platform
   \<and> lower_kept exact_platform online_info \<and> upper_kept exact_platform online_info
   \<and> py_le (ev_min online_info) (ev_max online_info)
   \<and> lower_kept exact_platform sent_info \<and> upper_kept exact_platform sent_info
   \<and> py_le (ev_min sent_info) (ev_max sent_info)
   \<and> (\<exists>v. map_of (bounded_day 2) ''Time online'' = Some v \<and> within_bounds online_info v)
   \<and> (\<exists>v. map_of (bounded_day 2) ''Emails sent'' = Some v \<and> within_bounds sent_info v)"
proof -
  note h1 = generate_bounded_world
  have h2: "bounded_day 2 \<in> set [bounded_day 1, bounded_day 2]" by simp
  have h3: "distinct (map fst (events bounded_world))"
    by (simp add: bounded_world_def initial_world_def)
  have h4: "(''Time online'', online_info) \<in> set (events bounded_world)"
    by (simp add: bounded_world_def initial_world_def)
  have h4': "(''Emails sent'', sent_info) \<in> set (events bounded_world)"
    by (simp add: bounded_world_def initial_world_def)
  have h5: "map_of (statistics bounded_world) ''Time online'' = Some high_stat"
    by (simp add: bounded_world_def initial_world_def)
  have h5': "map_of (statistics bounded_world) ''Emails sent'' = Some high_stat"
    by (simp add: bounded_world_def initial_world_def)
  note h6 = round_monotone_exact_platform
  have m1: "ev_type online_info = ''C'' \<longrightarrow> round_monotone exact_platform"
    using h6 by simp
  have m2: "ev_type sent_info = ''C'' \<longrightarrow> round_monotone exact_platform"
    using h6 by simp
  have l1: "lower_kept exact_platform online_info"
    by (simp add: lower_kept_def online_info_def exact_platform_def exact_round2_def
        round_half_even_def)
  have u1: "upper_kept exact_platform online_info"
    by (simp add: upper_kept_def online_info_def exact_platform_def exact_round2_def
        round_half_even_def)
  have o1: "py_le (ev_min online_info) (ev_max online_info)"
    by (simp add: online_info_def py_le_def)
  have l2: "lower_kept exact_platform sent_info"
    by (simp add: lower_kept_def sent_info_def py_le_def)
  have u2: "upper_kept exact_platform sent_info"
    by (simp add: upper_kept_def sent_info_def py_le_def trunc_def)
  have o2: "py_le (ev_min sent_info) (ev_max sent_info)"
    by (simp add: sent_info_def py_le_def)
  from sampled_value_within_bounds [OF h1 h2 h3 h4 h5 m1] l1 u1 o1
  have c1: "\<exists>v. map_of (bounded_day 2) ''Time online'' = Some v \<and> within_bounds online_info v"
    unfolding within_bounds_def by blast
  from sampled_value_within_bounds [OF h1 h2 h3 h4' h5' m2] l2 u2 o2
  have c2: "\<exists>v. map_of (bounded_day 2) ''Emails sent'' = Some v \<and> within_bounds sent_info v"
    unfolding within_bounds_def by blast
  show ?thesis by (intro conjI h1 h2 h3 h4 h4' h5 h5' h6 l1 u1 o1 l2 u2 o2 c1 c2)
qed

section \<open>The records and the log files of a run\<close>

lemma digit_val_digit_char: "d < 10 \<Longrightarrow> digit_val (digit_char d) = Some d"
proof -
  assume "d < 10"
  then have "d \<in> set [0..<10]" by simp
  then have "d = 0 \<or> d = 1 \<or> d = 2 \<or> d = 3 \<or> d = 4 \<or> d = 5 \<or> d = 6 \<or> d = 7 \<or> d = 8 \<or> d = 9"
    by (auto simp: upt_rec)
  then show ?thesis
    by (auto simp: digit_val_def digit_char_def)
qed

lemma digits_val_append:
  "digits_val (xs @ ys) acc = (case digits_val xs acc of None \<Rightarrow> None | Some a \<Rightarrow> digits_val ys a)"
  by (induction xs arbitrary: acc) (auto split: option.splits)

lemma digits_val_str_nat: "digits_val (str_nat n) 0 = Some n"
proof (induction n rule: str_nat.induct)
  case (1 n)
  show ?case
  proof (cases "n < 10")
    case True
    then have "str_nat n = [digit_char n]" by (subst str_nat.simps) simp
    with True show ?thesis by (simp add: digit_val_digit_char)
  next
    case False
    then have eq: "str_nat n = str_nat (n div 10) @ [digit_char (n mod 10)]"
      by (subst str_nat.simps) simp
    from False "1.IH" have ih: "digits_val (str_nat (n div 10)) 0 = Some (n div 10)" by simp
    have d: "digit_val (digit_char (n mod 10)) = Some (n mod 10)"
      by (rule digit_val_digit_char) simp
    have "digits_val (str_nat n) 0 = Some (10 * (n div 10) + n mod 10)"
      unfolding eq digits_val_append ih by (simp add: d)
    then show ?thesis by simp
  qed
qed

lemma str_nat_inj:
  assumes "str_nat a = str_nat b"
  shows "a = b"
proof -
  have "Some a = digits_val (str_nat a) 0" by (simp only: digits_val_str_nat)
  also have "\<dots> = digits_val (str_nat b) 0" by (simp only: assms)
  also have "\<dots> = Some b" by (simp only: digits_val_str_nat)
  finally show ?thesis by simp
qed

lemma log_name_inj: "log_name a = log_name b \<Longrightarrow> a = b"
  by (auto simp: log_name_def dest: str_nat_inj)


text \<open>A name that no sampled event bears keeps its entry in the record of the day.\<close>

lemma sample_events_unsampled:
  "sample_events P gauss sts evs d k = Inr (d', k')
    \<Longrightarrow> name \<notin> fst ` set evs \<or> map_of sts name = None
    \<Longrightarrow> map_of d' name = map_of d name"
proof (induction evs arbitrary: d k)
  case Nil
  then show ?case by simp
next
  case (Cons p evs)
  obtain n i where p: "p = (n, i)" by (cases p)
  from Cons.prems(2) have rest: "name \<notin> fst ` set evs \<or> map_of sts name = None" by auto
  show ?case
  proof (cases "map_of sts n")
    case None
    with Cons.prems(1) p Cons.IH [OF _ rest] show ?thesis by simp
  next
    case (Some st)
    with Cons.prems(2) p have ne: "n \<noteq> name" by auto
    from Some Cons.prems(1) p obtain v where
      v: "sample_events P gauss sts evs (AList.update n v d) (Suc k) = Inr (d', k')"
      by (auto split: sum.splits)
    from Cons.IH [OF v rest] ne show ?thesis by (simp add: update_conv')
  qed
qed

lemma write_logs_other:
  "f \<notin> log_name ` fst ` set ps \<Longrightarrow> map_of (write_logs ps dir) f = map_of dir f"
  unfolding write_logs_def
  by (induction ps arbitrary: dir) (auto simp: update_conv')

lemma write_logs_hit:
  "distinct (map fst ps) \<Longrightarrow> (day, r) \<in> set ps
    \<Longrightarrow> map_of (write_logs ps dir) (log_name day) = Some (Doc (json_of_daily r))"
proof (induction ps arbitrary: dir)
  case Nil
  then show ?case by simp
next
  case (Cons p ps)
  show ?case
  proof (cases "p = (day, r)")
    case True
    with Cons.prems(1) have "day \<notin> fst ` set ps" by auto
    then have "log_name day \<notin> log_name ` fst ` set ps"
      by (auto dest: log_name_inj)
    from write_logs_other [OF this] True show ?thesis
      by (simp add: write_logs_def update_conv')
  next
    case False
    with Cons.prems have "distinct (map fst ps)" "(day, r) \<in> set ps" by auto
    from Cons.IH [OF this] show ?thesis by (simp add: write_logs_def)
  qed
qed

lemma generate_days_shape:
  assumes "generate_days P gauss ds w acc = Inr (recs, w')" and "log_dir w = Some dir"
  shows "\<exists>new. recs = acc @ new \<and> length new = length ds
           \<and> log_dir w' = Some (write_logs (zip ds new) dir)
           \<and> (\<forall>i<length ds. \<exists>k k'. sample_events P gauss (statistics w) (events w)
                   [(''Day'', PInt (int (ds ! i) + 1))] k = Inr (new ! i, k'))"
  using assms
proof (induction ds arbitrary: w acc dir)
  case Nil
  then show ?case by (simp add: write_logs_def)
next
  case (Cons day ds)
  let ?sts = "statistics w" and ?evs = "events w"
  from Cons.prems obtain daily k where
    s: "sample_events P gauss ?sts ?evs [(''Day'', PInt (int day + 1))] (gauss_calls w) = Inr (daily, k)"
    and g: "generate_days P gauss ds
          (w\<lparr>gauss_calls := k,
             log_dir := Some (AList.update (log_name day) (Doc (json_of_daily daily)) dir)\<rparr>)
          (acc @ [daily]) = Inr (recs, w')"
    by (auto split: sum.splits option.splits)
  let ?w1 = "w\<lparr>gauss_calls := k,
             log_dir := Some (AList.update (log_name day) (Doc (json_of_daily daily)) dir)\<rparr>"
  have "log_dir ?w1 = Some (AList.update (log_name day) (Doc (json_of_daily daily)) dir)" by simp
  from Cons.IH [OF g this] obtain new where
    new: "recs = (acc @ [daily]) @ new" "length new = length ds"
      "log_dir w' = Some (write_logs (zip ds new)
          (AList.update (log_name day) (Doc (json_of_daily daily)) dir))"
      "\<forall>i<length ds. \<exists>k k'. sample_events P gauss ?sts ?evs
                   [(''Day'', PInt (int (ds ! i) + 1))] k = Inr (new ! i, k')"
    by auto
  have all: "\<forall>i<length (day # ds). \<exists>k k'. sample_events P gauss ?sts ?evs
                   [(''Day'', PInt (int ((day # ds) ! i) + 1))] k = Inr ((daily # new) ! i, k')"
  proof (intro allI impI)
    fix i assume "i < length (day # ds)"
    then show "\<exists>k k'. sample_events P gauss ?sts ?evs
                   [(''Day'', PInt (int ((day # ds) ! i) + 1))] k = Inr ((daily # new) ! i, k')"
      using s new(4) by (cases i) auto
  qed
  have "recs = acc @ (daily # new)" using new(1) by simp
  moreover have "length (daily # new) = length (day # ds)" using new(2) by simp
  moreover have "log_dir w' = Some (write_logs (zip (day # ds) (daily # new)) dir)"
    using new(3) by (simp add: write_logs_def)
  ultimately show ?case using all by blast
qed

text \<open>
  C4, as stated, fails in two ways. An event named \<open>Day\<close> that has statistics overwrites
  the day field of the record: the record of day 1 then holds the sampled value \<open>50.0\<close>
  under \<open>Day\<close>. And with a discrete event whose upper bound is infinite the generator
  raises and returns no record at all for one day.
\<close>

theorem day_field_counterexample:
  "map_sum id fst (generate_events exact_platform gauss_mean 1 day_world) = Inr [day_world_record]
   \<and> map_of day_world_record ''Day'' = Some (PFloat (Fin 50))
   \<and> generate_events exact_platform gauss_mean 1 logins_world = Inl OverflowError"
  by (simp add: generate_events_def day_world_def logins_world_def initial_world_def
      gauss_mean_def day_info_def day_stat_def logins_info_def logins_stat_def sample_value_def
      py_max_def py_min_def py_lt_def trunc_def exact_platform_def exact_round2_def
      round_half_even_def
      day_world_record_def)

text \<open>
  C4, amended. Whenever the generator returns and no sampled event is named \<open>Day\<close>, it
  returns one record for each day of \<open>range(days)\<close>, with the day fields \<open>1, 2, ...\<close> in
  this order. The log directory then holds under the name of each day the document of
  that day's record, the names of different days differ, and every other entry of the
  directory is as before.
\<close>

theorem generate_events_days_and_logs:
  assumes "generate_events P gauss days w = Inr (recs, w')"
    and "''Day'' \<notin> fst ` set (events w) \<or> map_of (statistics w) ''Day'' = None"
  shows "length recs = nat days
       \<and> map (\<lambda>r. map_of r ''Day'') recs = map (\<lambda>d. Some (PInt (int d + 1))) [0..<nat days]
       \<and> (\<exists>dir'. log_dir w' = Some dir'
             \<and> (\<forall>d<nat days. map_of dir' (log_name d) = Some (Doc (json_of_daily (recs ! d))))
             \<and> (\<forall>f. f \<notin> log_name ` {..<nat days} \<longrightarrow>
                   map_of dir' f = map_of (case log_dir w of None \<Rightarrow> [] | Some dir \<Rightarrow> dir) f))
       \<and> card (log_name ` {..<nat days}) = nat days"
proof -
  let ?w = "if log_dir w = None then w\<lparr>log_dir := Some []\<rparr> else w"
  let ?dir = "case log_dir w of None \<Rightarrow> [] | Some dir \<Rightarrow> dir"
  let ?ds = "[0..<nat days]"
  have ev: "events ?w = events w" "statistics ?w = statistics w" by auto
  have dir: "log_dir ?w = Some ?dir" by (cases "log_dir w") auto
  from assms(1) have "generate_days P gauss ?ds ?w [] = Inr (recs, w')"
    by (simp add: generate_events_def)
  from generate_days_shape [OF this dir] have
    len: "length recs = length ?ds"
    and logs: "log_dir w' = Some (write_logs (zip ?ds recs) ?dir)"
    and samp: "\<forall>i<length ?ds. \<exists>k k'. sample_events P gauss (statistics w) (events w)
                   [(''Day'', PInt (int (?ds ! i) + 1))] k = Inr (recs ! i, k')"
    unfolding ev by auto
  have c1: "length recs = nat days" using len by simp
  have c2: "map (\<lambda>r. map_of r ''Day'') recs = map (\<lambda>d. Some (PInt (int d + 1))) ?ds"
  proof (rule nth_equalityI)
    show "length (map (\<lambda>r. map_of r ''Day'') recs) = length (map (\<lambda>d. Some (PInt (int d + 1))) ?ds)"
      using len by simp
  next
    fix i assume "i < length (map (\<lambda>r. map_of r ''Day'') recs)"
    then have i: "i < nat days" using c1 by simp
    with samp obtain k k' where
      "sample_events P gauss (statistics w) (events w) [(''Day'', PInt (int i + 1))] k = Inr (recs ! i, k')"
      by auto
    from sample_events_unsampled [OF this assms(2)]
    have "map_of (recs ! i) ''Day'' = Some (PInt (int i + 1))" by simp
    with i c1 show "map (\<lambda>r. map_of r ''Day'') recs ! i = map (\<lambda>d. Some (PInt (int d + 1))) ?ds ! i"
      by simp
  qed
  have dist: "distinct (map fst (zip ?ds recs))" using len by (simp add: map_fst_zip)
  have hit: "\<forall>d<nat days. map_of (write_logs (zip ?ds recs) ?dir) (log_name d)
               = Some (Doc (json_of_daily (recs ! d)))"
  proof (intro allI impI)
    fix d assume d: "d < nat days"
    with c1 have "(d, recs ! d) \<in> set (zip ?ds recs)"
      by (auto simp: set_zip intro!: exI [of _ d])
    from write_logs_hit [OF dist this]
    show "map_of (write_logs (zip ?ds recs) ?dir) (log_name d) = Some (Doc (json_of_daily (recs ! d)))" .
  qed
  have other: "\<forall>f. f \<notin> log_name ` {..<nat days} \<longrightarrow>
                   map_of (write_logs (zip ?ds recs) ?dir) f = map_of ?dir f"
  proof (intro allI impI)
    fix f assume "f \<notin> log_name ` {..<nat days}"
    moreover have "fst ` set (zip ?ds recs) \<subseteq> {..<nat days}"
      by (auto dest: set_zip_leftD)
    ultimately have "f \<notin> log_name ` fst ` set (zip ?ds recs)" by blast
    from write_logs_other [OF this]
    show "map_of (write_logs (zip ?ds recs) ?dir) f = map_of ?dir f" .
  qed
  have c4: "card (log_name ` {..<nat days}) = nat days"
    by (simp add: card_image inj_on_def log_name_inj)
  from c1 c2 logs hit other c4 show ?thesis by blast
qed

theorem generate_events_days_and_logs_witness:
  "generate_events exact_platform gauss_mean 2 bounded_world = Inr ([bounded_day 1, bounded_day 2], bounded_world_after)
   \<and> ''Day'' \<notin> fst ` set (events bounded_world)
   \<and> length [bounded_day 1, bounded_day 2] = nat 2
   \<and> map (\<lambda>r. map_of r ''Day'') [bounded_day 1, bounded_day 2]
        = map (\<lambda>d. Some (PInt (int d + 1))) [0..<nat 2]
   \<and> (\<exists>dir'. log_dir bounded_world_after = Some dir'
         \<and> (\<forall>d<nat 2. map_of dir' (log_name d)
                = Some (Doc (json_of_daily ([bounded_day 1, bounded_day 2] ! d))))
         \<and> (\<forall>f. f \<notin> log_name ` {..<nat 2} \<longrightarrow>
               map_of dir' f = map_of (case log_dir bounded_world of None \<Rightarrow> [] | Some dir \<Rightarrow> dir) f))
   \<and> card (log_name ` {..<nat 2}) = nat 2"
proof -
  note h1 = generate_bounded_world
  have h2: "''Day'' \<notin> fst ` set (events bounded_world)"
    by (simp add: bounded_world_def initial_world_def)
  note c = generate_events_days_and_logs [OF h1 disjI1 [OF h2]]
  show ?thesis by (intro conjI h1 h2 c [THEN conjunct1] c [THEN conjunct2, THEN conjunct1]
      c [THEN conjunct2, THEN conjunct2, THEN conjunct1]
      c [THEN conjunct2, THEN conjunct2, THEN conjunct2])
qed

section \<open>What the analysis collects\<close>

lemma add_items_keys: "map fst (add_items items totals) = map fst totals"
proof (induction items arbitrary: totals)
  case Nil
  then show ?case by simp
next
  case (Cons p items)
  obtain k v where p: "p = (k, v)" by (cases p)
  have "map fst (AList.map_entry k (\<lambda>vs. vs @ [v]) totals) = map fst totals"
    by (induction totals) auto
  with Cons.IH p show ?case by simp
qed

lemma add_items_lookup:
  "map_of (add_items items totals) name
     = map_option (\<lambda>vs. vs @ map snd (filter (\<lambda>p. fst p = name) items)) (map_of totals name)"
proof (induction items arbitrary: totals)
  case Nil
  then show ?case by (simp add: option.map_ident)
next
  case (Cons p items)
  obtain k v where p: "p = (k, v)" by (cases p)
  have key: "k \<in> set (map fst totals) \<longleftrightarrow> map_of totals k \<noteq> None"
    by (simp add: map_of_eq_None_iff)
  show ?case
  proof (cases "map_of totals name")
    case None
    then show ?thesis
      unfolding p by (auto simp: Cons.IH map_of_map_entry simp del: set_map)
  next
    case (Some vs)
    then show ?thesis
      unfolding p using key by (auto simp: Cons.IH map_of_map_entry simp del: set_map)
  qed
qed

lemma read_logs_keys:
  "read_logs dir fs totals out = Inr (totals', out') \<Longrightarrow> map fst totals' = map fst totals"
proof (induction fs arbitrary: totals out)
  case Nil
  then show ?case by simp
next
  case (Cons f fs)
  from Cons.prems show ?case
    by (auto split: option.splits log_file.splits json.splits
        dest!: Cons.IH simp: add_items_keys)
qed

lemma read_logs_lookup:
  "read_logs dir fs totals out = Inr (totals', out')
    \<Longrightarrow> map_of totals' name = map_option (\<lambda>vs. vs @ values_of_logs dir fs name) (map_of totals name)"
proof (induction fs arbitrary: totals out)
  case Nil
  then show ?case by (simp add: values_of_logs_def option.map_ident)
next
  case (Cons f fs)
  from Cons.prems show ?case
    by (auto split: option.splits log_file.splits json.splits
        dest!: Cons.IH
        simp: add_items_lookup values_of_logs_def values_of_log_def option.map_comp comp_def)
qed

text \<open>What is printed does not change what is collected.\<close>

lemma read_logs_out:
  "map_sum id fst (read_logs dir fs totals out) = map_sum id fst (read_logs dir fs totals out')"
proof (induction fs arbitrary: totals out out')
  case Nil
  then show ?case by simp
next
  case (Cons f fs)
  show ?case
  proof (cases "map_of dir f")
    case None
    then show ?thesis by simp
  next
    case (Some lf)
    show ?thesis
    proof (cases lf)
      case (Corrupt msg)
      with Some Cons.IH [of totals "out @ [log_diag f msg]" "out' @ [log_diag f msg]"]
      show ?thesis by simp
    next
      case (Doc j)
      with Some Cons.IH [of _ out out'] show ?thesis by (cases j) auto
    qed
  qed
qed


lemma baseline_loop_lookup:
  "baseline_loop P ts acc = Inr bs \<Longrightarrow> distinct (map fst ts)
    \<Longrightarrow> map_of bs name =
          (case map_of ts name of
             None \<Rightarrow> map_of acc name
           | Some vs \<Rightarrow>
               if vs = [] then map_of acc name
               else (case event_baseline P vs of Inl e \<Rightarrow> None | Inr b \<Rightarrow> Some b))"
proof (induction ts arbitrary: acc)
  case Nil
  then show ?case by simp
next
  case (Cons p ts)
  obtain n vs where p: "p = (n, vs)" by (cases p)
  from Cons.prems(2) p have dist: "distinct (map fst ts)" and notin: "map_of ts n = None"
    by (auto simp: map_of_eq_None_iff)
  show ?case
  proof (cases "vs = []")
    case True
    with Cons.prems(1) p have "baseline_loop P ts acc = Inr bs" by simp
    from Cons.IH [OF this dist] True p notin show ?thesis by auto
  next
    case False
    with Cons.prems(1) p obtain b where b: "event_baseline P vs = Inr b"
      and rest: "baseline_loop P ts (AList.update n b acc) = Inr bs"
      by (auto split: sum.splits)
    from Cons.IH [OF rest dist] False p notin b show ?thesis
      by (auto simp: update_conv' split: option.splits)
  qed
qed

lemma initial_totals_lookup:
  "map_of (map (\<lambda>name. (name, [])) (map fst evs)) name
     = (if name \<in> fst ` set evs then Some [] else None)"
  by (induction evs) auto

text \<open>The result of \<open>analyze_stats\<close>, name by name: an entry exactly for the names of
  \<open>events\<close> with at least one value in the logs.\<close>

lemma analyze_stats_lookup:
  assumes "analyze_stats P w = Inr (bs, w')" and "distinct (map fst (events w))"
    and "log_dir w = Some dir"
  shows "map_of bs name =
           (if name \<in> fst ` set (events w) \<and> accumulated dir name \<noteq> []
            then (case event_baseline P (accumulated dir name) of Inl e \<Rightarrow> None | Inr b \<Rightarrow> Some b)
            else None)"
proof -
  let ?t0 = "map (\<lambda>name. (name, [])) (map fst (events w))"
  from assms(1,3) obtain totals out where
    r: "read_logs dir (log_files dir) ?t0 (stdout w) = Inr (totals, out)"
    and b: "baseline_loop P totals [] = Inr bs"
    by (auto simp: analyze_stats_def split: sum.splits)
  have t0: "map_of ?t0 name = (if name \<in> fst ` set (events w) then Some [] else None)"
    by (rule initial_totals_lookup)
  from read_logs_keys [OF r] assms(2) have dist: "distinct (map fst totals)"
    by (simp add: comp_def)
  have tot: "map_of totals name =
      (if name \<in> fst ` set (events w) then Some (accumulated dir name) else None)"
    unfolding read_logs_lookup [OF r, of name] t0 accumulated_def by simp
  from baseline_loop_lookup [OF b dist, of name] tot show ?thesis by simp
qed

lemma log_files_bounded:
  "log_files [(''day_1.log'', a), (''day_2.log'', b)] = [''day_1.log'', ''day_2.log'']"
  by (simp add: log_files_def is_log_name_def startswith_def endswith_def)

lemma exact_round2_numeral_simps:
  "exact_round2 0 = 0" "exact_round2 10 = 10" "exact_round2 1440 = 1440" "exact_round2 5 = 5"
  "exact_round2 2 = 2"
  by (simp_all add: exact_round2_def round_half_even_def)

lemma analyze_bounded:
  "map_sum id fst (analyze_stats exact_platform bounded_world_after)
     = Inr [(''Time online'', \<lparr>total = PFloat (Fin 2880), mean = Fin 1440, std_dev = Fin 0\<rparr>),
            (''Emails sent'', \<lparr>total = PInt 20, mean = Fin 10, std_dev = Fin 0\<rparr>)]"
  by (simp add: analyze_stats_def bounded_world_after_def bounded_world_def initial_world_def
      log_files_bounded json_of_daily_def bounded_day_def event_baseline_def py_sum_def
      exact_platform_def exact_sub_def exact_round2_numeral_simps exact_fin_small
      float_limit_above)

section \<open>The analysis and the state in memory\<close>

text \<open>
  C3, as stated, fails. Over the same log directory the analysis returns the statistics
  of both logged events when \<open>events\<close> defines them, and the empty map when \<open>events\<close> is
  empty, as it is in a process that has read no definitions: the names are taken from
  \<open>events\<close>, not from the logs.
\<close>

theorem analyze_stats_definitions_counterexample:
  "log_dir (initial_world (log_dir bounded_world_after)) = log_dir bounded_world_after
   \<and> map_sum id fst (analyze_stats exact_platform bounded_world_after)
       = Inr [(''Time online'', \<lparr>total = PFloat (Fin 2880), mean = Fin 1440, std_dev = Fin 0\<rparr>),
              (''Emails sent'', \<lparr>total = PInt 20, mean = Fin 10, std_dev = Fin 0\<rparr>)]
   \<and> map_sum id fst (analyze_stats exact_platform (initial_world (log_dir bounded_world_after))) = Inr []"
  by (simp add: analyze_bounded)
    (simp add: analyze_stats_def bounded_world_after_def initial_world_def log_files_bounded
      json_of_daily_def bounded_day_def)

text \<open>
  C3, amended. The baseline map depends on the state in memory only through the list of
  names defined in \<open>events\<close>: two states with the same log directory and the same event
  names, whatever their definitions, statistics and printed lines are, give the same
  baseline map or the same exception.
\<close>

theorem analyze_stats_event_names:
  assumes "log_dir w1 = log_dir w2" and "map fst (events w1) = map fst (events w2)"
  shows "map_sum id fst (analyze_stats P w1) = map_sum id fst (analyze_stats P w2)"
proof (cases "log_dir w2")
  case None
  with assms(1) show ?thesis by (simp add: analyze_stats_def)
next
  case (Some dir)
  let ?t0 = "map (\<lambda>name. (name, [])) (map fst (events w2))"
  let ?r1 = "read_logs dir (log_files dir) ?t0 (stdout w1)"
  let ?r2 = "read_logs dir (log_files dir) ?t0 (stdout w2)"
  have eq: "map_sum id fst ?r1 = map_sum id fst ?r2" by (rule read_logs_out)
  have a1: "analyze_stats P w1 =
      (case ?r1 of Inl e \<Rightarrow> Inl e
       | Inr (totals, out) \<Rightarrow>
           (case baseline_loop P totals [] of Inl e \<Rightarrow> Inl e
            | Inr bs \<Rightarrow> Inr (bs, w1\<lparr>stdout := out\<rparr>)))"
    using Some assms by (simp add: analyze_stats_def)
  have a2: "analyze_stats P w2 =
      (case ?r2 of Inl e \<Rightarrow> Inl e
       | Inr (totals, out) \<Rightarrow>
           (case baseline_loop P totals [] of Inl e \<Rightarrow> Inl e
            | Inr bs \<Rightarrow> Inr (bs, w2\<lparr>stdout := out\<rparr>)))"
    using Some by (simp add: analyze_stats_def)
  show ?thesis
    unfolding a1 a2 using eq
    by (cases ?r1; cases ?r2) (auto split: sum.splits)
qed

theorem analyze_stats_event_names_witness:
  "log_dir bounded_world_after = log_dir redefined_world
   \<and> map fst (events bounded_world_after) = map fst (events redefined_world)
   \<and> events bounded_world_after \<noteq> events redefined_world
   \<and> statistics bounded_world_after \<noteq> statistics redefined_world
   \<and> map_sum id fst (analyze_stats exact_platform bounded_world_after)
       = map_sum id fst (analyze_stats exact_platform redefined_world)"
proof -
  have h1: "log_dir bounded_world_after = log_dir redefined_world"
    by (simp add: redefined_world_def)
  have h2: "map fst (events bounded_world_after) = map fst (events redefined_world)"
    by (simp add: redefined_world_def bounded_world_after_def bounded_world_def initial_world_def)
  have h3: "events bounded_world_after \<noteq> events redefined_world"
    by (simp add: redefined_world_def bounded_world_after_def bounded_world_def initial_world_def
        online_info_def day_info_def)
  have h4: "statistics bounded_world_after \<noteq> statistics redefined_world"
    by (simp add: redefined_world_def bounded_world_after_def bounded_world_def initial_world_def)
  note c = analyze_stats_event_names [OF h1 h2]
  show ?thesis by (intro conjI h1 h2 h3 h4 c)
qed

section \<open>The statistics of an event\<close>

text \<open>The sum of the squared deviations is the sum of the list of the squared deviations.\<close>

lemma sum_sq_dev_as_sum:
  "list_all2 (squared_deviation P m) xs qs
    \<Longrightarrow> sum_sq_dev P m acc xs = py_sum_from P acc (map (\<lambda>q. JNum (PFloat q)) qs)"
proof (induction xs qs arbitrary: acc rule: list_all2_induct)
  case Nil
  then show ?case by simp
next
  case (Cons x xs q qs)
  from Cons.hyps(1) obtain n d where
    "json_number x = Some n" "p_sub P n m = Inr d" "p_pow2 P d = Inr q"
    by (auto simp: squared_deviation_def)
  then show ?case by (simp add: Cons.IH split: sum.splits)
qed

lemma sum_sq_dev_returns:
  "sum_sq_dev P m acc xs = Inr ss \<Longrightarrow> \<exists>qs. list_all2 (squared_deviation P m) xs qs"
proof (induction xs arbitrary: acc)
  case Nil
  then show ?case by simp
next
  case (Cons x xs)
  from Cons.prems obtain n d q acc' where
    s: "json_number x = Some n" "p_sub P n m = Inr d" "p_pow2 P d = Inr q"
    and r: "sum_sq_dev P m acc' xs = Inr ss"
    by (auto split: option.splits sum.splits)
  from Cons.IH [OF r] obtain qs where "list_all2 (squared_deviation P m) xs qs" by blast
  with s have "list_all2 (squared_deviation P m) (x # xs) (q # qs)"
    by (auto simp: squared_deviation_def)
  then show ?case by blast
qed

lemma platform_rounded_iff: "platform_rounded P x y \<longleftrightarrow> y = fround2 P x"
  by (cases x) (auto simp: platform_rounded_def)

text \<open>The body of the loop returns \<open>b\<close> exactly when \<open>b\<close> is the baseline of the values in
  the words of the specification, rounded as the platform rounds.\<close>

lemma event_baseline_iff_spec:
  "event_baseline P vals = Inr b \<longleftrightarrow> spec_baseline P (platform_rounded P) vals b"
proof
  assume eb: "event_baseline P vals = Inr b"
  then obtain s m ss var sd where
    st: "py_sum P vals = Inr s" "p_truediv P s (length vals) = Inr m"
        "sum_sq_dev P m (p_sum_start P) vals = Inr ss"
        "p_truediv P ss (length vals) = Inr var" "p_sqrt P var = Inr sd"
    and b: "b = \<lparr>total = s, mean = fround2 P m, std_dev = fround2 P sd\<rparr>"
    by (auto simp: event_baseline_def split: sum.splits)
  from sum_sq_dev_returns [OF st(3)] obtain qs where
    qs: "list_all2 (squared_deviation P m) vals qs" by blast
  from sum_sq_dev_as_sum [OF qs, of "p_sum_start P"] st(3)
  have "py_sum P (map (\<lambda>q. JNum (PFloat q)) qs) = Inr ss" by (simp add: py_sum_def)
  with st qs b show "spec_baseline P (platform_rounded P) vals b"
    unfolding spec_baseline_def platform_rounded_iff
    by (intro exI [of _ m] exI [of _ qs] exI [of _ ss] exI [of _ var] exI [of _ sd]) simp
next
  assume "spec_baseline P (platform_rounded P) vals b"
  then obtain m qs ss var sd where
    sp: "py_sum P vals = Inr (total b)" "p_truediv P (total b) (length vals) = Inr m"
        "list_all2 (squared_deviation P m) vals qs"
        "py_sum P (map (\<lambda>q. JNum (PFloat q)) qs) = Inr ss"
        "p_truediv P ss (length vals) = Inr var" "p_sqrt P var = Inr sd"
        "mean b = fround2 P m" "std_dev b = fround2 P sd"
    unfolding spec_baseline_def platform_rounded_iff by blast
  from sum_sq_dev_as_sum [OF sp(3), of "p_sum_start P"] sp(4)
  have "sum_sq_dev P m (p_sum_start P) vals = Inr ss" by (simp add: py_sum_def)
  with sp show "event_baseline P vals = Inr b"
    by (simp add: event_baseline_def)
qed

text \<open>On a platform that rounds to two decimal places, what the platform reports is the
  float rounded to two decimal places.\<close>

lemma two_decimals_rounded:
  "two_decimals P \<Longrightarrow> platform_rounded P x y \<Longrightarrow> hundredth_rounded x y"
  by (cases x) (auto simp: two_decimals_def platform_rounded_def hundredth_rounded_def)

lemma spec_baseline_mono:
  assumes "spec_baseline P R vals b" and "\<And>x y. R x y \<Longrightarrow> R' x y"
  shows "spec_baseline P R' vals b"
proof -
  from assms(1) obtain m qs ss var sd where
    sp: "py_sum P vals = Inr (total b)" "p_truediv P (total b) (length vals) = Inr m"
        "list_all2 (squared_deviation P m) vals qs"
        "py_sum P (map (\<lambda>q. JNum (PFloat q)) qs) = Inr ss"
        "p_truediv P ss (length vals) = Inr var" "p_sqrt P var = Inr sd"
        "R m (mean b)" "R sd (std_dev b)"
    unfolding spec_baseline_def by blast
  from sp(7,8) have "R' m (mean b)" "R' sd (std_dev b)" by (auto intro: assms(2))
  with sp(1-6) show ?thesis unfolding spec_baseline_def by blast
qed

lemma round_half_even_near: "\<bar>x - of_int (round_half_even x)\<bar> \<le> 1 / 2"
proof -
  have "of_int \<lfloor>x\<rfloor> \<le> x" "x < of_int \<lfloor>x\<rfloor> + 1" by linarith+
  then show ?thesis by (auto simp: round_half_even_def Let_def)
qed

lemma two_decimals_exact_platform: "two_decimals exact_platform"
proof -
  have "hundredth_rounded (Fin x) (Fin (exact_round2 x))" for x
  proof -
    let ?k = "round_half_even (x * 100)"
    from round_half_even_near [of "x * 100"]
    have "\<bar>x - of_int ?k / 100\<bar> \<le> 1 / 200" by (simp add: field_simps)
    moreover have "\<bar>exact_round2 x - of_int ?k / 100\<bar> \<le> \<bar>of_int ?k / 100\<bar> / 2 ^ 53"
      by (simp add: exact_round2_def)
    ultimately show ?thesis unfolding hundredth_rounded_def by (auto simp del: power_numeral)
  qed
  then show ?thesis by (simp add: two_decimals_def exact_platform_def)
qed

text \<open>A value that is not a number makes \<^verbatim>\<open>sum\<close>, and with it the analysis, raise.\<close>

lemma py_sum_from_non_number:
  "v \<in> set vals \<Longrightarrow> json_number v = None \<Longrightarrow> \<exists>e. py_sum_from P acc vals = Inl e"
  by (induction vals arbitrary: acc) (auto split: option.splits sum.splits)

lemma event_baseline_non_number:
  "v \<in> set vals \<Longrightarrow> json_number v = None \<Longrightarrow> \<exists>e. event_baseline P vals = Inl e"
  using py_sum_from_non_number [of v vals P "p_sum_start P"]
  by (auto simp: event_baseline_def py_sum_def)

lemma baseline_loop_raises:
  "(name, vals) \<in> set ts \<Longrightarrow> vals \<noteq> [] \<Longrightarrow> event_baseline P vals = Inl e
    \<Longrightarrow> \<exists>e'. baseline_loop P ts acc = Inl e'"
proof (induction ts arbitrary: acc)
  case Nil
  then show ?case by simp
next
  case (Cons p ts)
  obtain n vs where p: "p = (n, vs)" by (cases p)
  show ?case
  proof (cases "p = (name, vals)")
    case True
    with Cons.prems p show ?thesis by auto
  next
    case False
    with Cons.prems have "(name, vals) \<in> set ts" by auto
    from Cons.IH [OF this Cons.prems(2,3)] p show ?thesis
      by (auto split: sum.splits)
  qed
qed

lemma analyze_stats_non_number:
  assumes "log_dir w = Some dir" and "distinct (map fst (events w))"
    and "name \<in> fst ` set (events w)" and "v \<in> set (accumulated dir name)"
    and "json_number v = None"
  shows "\<exists>e. analyze_stats P w = Inl e"
proof (cases "read_logs dir (log_files dir) (map (\<lambda>name. (name, [])) (map fst (events w))) (stdout w)")
  case (Inl e)
  with assms(1) show ?thesis by (simp add: analyze_stats_def)
next
  case (Inr res)
  obtain totals out where res: "res = (totals, out)" by (cases res)
  note r = Inr [unfolded res]
  from read_logs_keys [OF r] assms(2) have dist: "distinct (map fst totals)"
    by (simp add: comp_def)
  have "map_of totals name = Some (accumulated dir name)"
    unfolding read_logs_lookup [OF r, of name] initial_totals_lookup accumulated_def
    using assms(3) by simp
  then have mem: "(name, accumulated dir name) \<in> set totals" by (rule map_of_SomeD)
  from assms(4) have ne: "accumulated dir name \<noteq> []" by auto
  from event_baseline_non_number [OF assms(4,5)] obtain e where
    "event_baseline P (accumulated dir name) = Inl e" by blast
  from baseline_loop_raises [OF mem ne this] obtain e' where
    "baseline_loop P totals [] = Inl e'" by blast
  with r assms(1) show ?thesis by (simp add: analyze_stats_def)
qed

text \<open>The exact platform is exact on whole numbers.\<close>

lemma exact_sum_ints:
  "py_sum_from exact_platform (PInt a) (int_items xs) = Inr (PInt (a + sum_list xs))"
  by (induction xs arbitrary: a) (simp_all add: int_items_def exact_platform_def add.assoc)

lemma exact_sum_floats_from:
  "0 \<le> a \<Longrightarrow> \<forall>x \<in> set xs. 0 \<le> x \<Longrightarrow> a + of_int (sum_list xs) \<le> 2 ^ 53
    \<Longrightarrow> py_sum_from exact_platform (PFloat (Fin a)) (float_items xs)
          = Inr (PFloat (Fin (a + of_int (sum_list xs))))"
proof (induction xs arbitrary: a)
  case Nil
  then show ?case by (simp add: float_items_def exact_platform_def)
next
  case (Cons x xs)
  from Cons.prems(2) have x: "0 \<le> x" and rest: "\<forall>y \<in> set xs. 0 \<le> y" by simp_all
  from rest have "0 \<le> sum_list xs" by (intro sum_list_nonneg) auto
  then have s: "0 \<le> real_of_int (sum_list xs)" by simp
  from Cons.prems(1) x have nn: "0 \<le> a + of_int x" by simp
  from Cons.prems(3) s have le: "a + of_int x \<le> 2 ^ 53" by simp
  from nn le have "\<bar>a + of_int x\<bar> \<le> 2 ^ 53" by simp
  then have step: "exact_add (PFloat (Fin a)) (PFloat (Fin (of_int x))) = Inr (PFloat (Fin (a + of_int x)))"
    by (simp add: exact_fin_small)
  from Cons.prems(3) have "a + of_int x + of_int (sum_list xs) \<le> 2 ^ 53" by (simp add: add.assoc)
  from Cons.IH [OF nn rest this] step show ?case
    by (simp add: float_items_def exact_platform_def add.assoc)
qed

lemma exact_sum_floats:
  assumes "xs \<noteq> []" and "\<forall>x \<in> set xs. 0 \<le> x" and "small (sum_list xs)"
  shows "py_sum exact_platform (float_items xs) = Inr (PFloat (Fin (of_int (sum_list xs))))"
proof -
  from assms(1) obtain x ys where xs: "xs = x # ys" by (cases xs) auto
  with assms(2) have x: "0 \<le> x" and rest: "\<forall>y \<in> set ys. 0 \<le> y" by simp_all
  from rest have "0 \<le> sum_list ys" by (intro sum_list_nonneg) auto
  then have s: "0 \<le> real_of_int (sum_list ys)" by simp
  from small_real [OF assms(3)] xs have "\<bar>real_of_int (x + sum_list ys)\<bar> \<le> 2 ^ 53" by simp
  with x s have tot: "real_of_int x + of_int (sum_list ys) \<le> 2 ^ 53" by simp
  with x s have "\<bar>real_of_int x\<bar> \<le> 2 ^ 53" by simp
  then have first: "exact_add (PInt 0) (PFloat (Fin (of_int x))) = Inr (PFloat (Fin (of_int x)))"
    using float_limit_above [of 0] by (simp add: exact_fin_small)
  from x have "0 \<le> real_of_int x" by simp
  from exact_sum_floats_from [OF this rest tot] first xs show ?thesis
    by (simp add: py_sum_def float_items_def exact_platform_def)
qed

lemma integer_exact_exact_platform: "integer_exact exact_platform"
proof -
  have e1: "py_sum exact_platform (int_items xs) = Inr (PInt (sum_list xs))" for xs
    using exact_sum_ints [of 0 xs] by (simp add: py_sum_def exact_platform_def)
  note e2 = exact_sum_floats
  have e3: "p_truediv exact_platform (PInt (k * int n)) n = Inr (Fin (of_int k))"
    if "0 < n" "small k" for k n
    using that float_limit_above [OF small_real, of k]
    by (simp add: exact_platform_def)
  have e4: "p_truediv exact_platform (PFloat (Fin (of_int (k * int n)))) n = Inr (Fin (of_int k))"
    if "0 < n" for k n
    using that by (simp add: exact_platform_def)
  have e5: "p_sub exact_platform (PInt i) (Fin (of_int k)) = Inr (Fin (of_int (i - k)))"
    if "small i" "small (i - k)" for i k
  proof -
    have f: "exact_float (PInt i) = Inr (Fin (of_int i))"
      by (rule exact_float_small [OF that(1)])
    from small_real [OF that(2)] have "\<bar>real_of_int i - real_of_int k\<bar> \<le> 2 ^ 53" by simp
    from exact_fin_small [OF this] have g: "exact_fin (real_of_int i - real_of_int k) = Fin (of_int (i - k))"
      by simp
    show ?thesis
      by (simp add: exact_platform_def exact_sub_def f g del: exact_float.simps)
  qed
  have e6: "p_pow2 exact_platform (Fin (of_int k)) = Inr (Fin (of_int (k * k)))"
    if "small (k * k)" for k
  proof -
    from small_real [OF that] have "real_of_int k * real_of_int k \<le> 2 ^ 53" by simp
    from float_limit_above [OF this] show ?thesis by (simp add: exact_platform_def)
  qed
  have e7: "0 \<le> k \<Longrightarrow> p_sqrt exact_platform (Fin (of_int (k * k))) = Inr (Fin (of_int k))" for k
    by (simp add: exact_platform_def)
  have e8: "p_round2 exact_platform (of_int k) = of_int k" for k
    by (simp add: exact_platform_def)
  show ?thesis
    unfolding integer_exact_def exact_int_sum_def
  proof (intro conjI allI impI)
    fix xs show "py_sum exact_platform (int_items xs) = Inr (PInt (sum_list xs))" by (rule e1)
  next
    fix xs :: "int list"
    assume "xs \<noteq> [] \<and> (\<forall>x \<in> set xs. 0 \<le> x) \<and> small (sum_list xs)"
    then show "py_sum exact_platform (float_items xs) = Inr (PFloat (Fin (of_int (sum_list xs))))"
      by (intro e2) simp_all
  next
    fix k :: int and n :: nat
    assume "0 < n \<and> small k"
    then show "p_truediv exact_platform (PInt (k * int n)) n = Inr (Fin (of_int k))"
      by (intro e3) simp_all
  next
    fix k :: int and n :: nat
    assume "0 < n \<and> small (int n) \<and> small (k * int n)"
    then show "p_truediv exact_platform (PFloat (Fin (of_int (k * int n)))) n = Inr (Fin (of_int k))"
      by (intro e4) simp_all
  next
    fix i k :: int
    assume "small i \<and> small k \<and> small (i - k)"
    then show "p_sub exact_platform (PInt i) (Fin (of_int k)) = Inr (Fin (of_int (i - k)))"
      by (intro e5) simp_all
  next
    fix k :: int
    assume "small (k * k)"
    then show "p_pow2 exact_platform (Fin (of_int k)) = Inr (Fin (of_int (k * k)))" by (rule e6)
  next
    fix k :: int
    assume "0 \<le> k \<and> small (k * k)"
    then show "p_sqrt exact_platform (Fin (of_int (k * k))) = Inr (Fin (of_int k))"
      by (intro e7) simp_all
  next
    fix k :: int
    show "p_round2 exact_platform (of_int k) = of_int k" by (rule e8)
  qed
qed

text \<open>What a platform that is exact on small whole numbers returns for the values of the
  example.\<close>

lemma integer_exact_sum_ints:
  "integer_exact P \<Longrightarrow> py_sum P (int_items xs) = Inr (PInt (sum_list xs))"
  by (simp add: integer_exact_def exact_int_sum_def)

lemma integer_exact_sum_floats:
  "integer_exact P \<Longrightarrow> xs \<noteq> [] \<Longrightarrow> \<forall>x \<in> set xs. 0 \<le> x \<Longrightarrow> small (sum_list xs)
    \<Longrightarrow> py_sum P (float_items xs) = Inr (PFloat (Fin (of_int (sum_list xs))))"
  by (simp add: integer_exact_def)

lemma integer_exact_truediv_int:
  "integer_exact P \<Longrightarrow> 0 < n \<Longrightarrow> small k
    \<Longrightarrow> p_truediv P (PInt (k * int n)) n = Inr (Fin (of_int k))"
  by (simp add: integer_exact_def)

lemma integer_exact_truediv_float:
  "integer_exact P \<Longrightarrow> 0 < n \<Longrightarrow> small (int n) \<Longrightarrow> small (k * int n)
    \<Longrightarrow> p_truediv P (PFloat (Fin (of_int (k * int n)))) n = Inr (Fin (of_int k))"
  by (simp add: integer_exact_def)

lemma integer_exact_sub:
  "integer_exact P \<Longrightarrow> small i \<Longrightarrow> small k \<Longrightarrow> small (i - k)
    \<Longrightarrow> p_sub P (PInt i) (Fin (of_int k)) = Inr (Fin (of_int (i - k)))"
  by (simp add: integer_exact_def)

lemma integer_exact_pow2:
  "integer_exact P \<Longrightarrow> small (k * k) \<Longrightarrow> p_pow2 P (Fin (of_int k)) = Inr (Fin (of_int (k * k)))"
  by (simp add: integer_exact_def)

lemma integer_exact_sqrt:
  "integer_exact P \<Longrightarrow> 0 \<le> k \<Longrightarrow> small (k * k)
    \<Longrightarrow> p_sqrt P (Fin (of_int (k * k))) = Inr (Fin (of_int k))"
  by (simp add: integer_exact_def)

lemma integer_exact_round2:
  "integer_exact P \<Longrightarrow> small k \<Longrightarrow> p_round2 P (of_int k) = of_int k"
  by (simp add: integer_exact_def)

lemma event_baseline_login_values:
  assumes "integer_exact P"
  shows "event_baseline P (int_items [2, 4, 4, 4, 5, 5, 7, 9])
           = Inr \<lparr>total = PInt 40, mean = Fin 5, std_dev = Fin 2\<rparr>"
proof -
  let ?vals = "int_items [2, 4, 4, 4, 5, 5, 7, 9]"
  let ?qs = "map (\<lambda>i. Fin (of_int i)) [9, 1, 1, 1, 0, 0, 4, 16 :: int]"
  have sm: "small k" if "\<bar>k\<bar> \<le> 100" for k
    using that by (simp add: small_def)
  from integer_exact_sum_ints [OF assms, of "[2, 4, 4, 4, 5, 5, 7, 9]"]
  have total: "py_sum P ?vals = Inr (PInt 40)" by simp
  from integer_exact_truediv_int [OF assms, of 8 5]
  have m: "p_truediv P (PInt 40) 8 = Inr (Fin 5)" by (simp add: sm)
  have sq: "squared_deviation P (Fin 5) (JNum (PInt i)) (Fin (of_int ((i - 5) * (i - 5))))"
    if "0 \<le> i" "i \<le> 10" for i
  proof -
    from that have b: "\<bar>i\<bar> \<le> 100" "\<bar>i - 5\<bar> \<le> 100" by simp_all
    from that have "- 5 \<le> i - 5" "i - 5 \<le> 5" by simp_all
    then have "\<bar>i - 5\<bar> \<le> 5" by simp
    then have "\<bar>i - 5\<bar> * \<bar>i - 5\<bar> \<le> 5 * 5" by (intro mult_mono) simp_all
    then have c: "\<bar>(i - 5) * (i - 5)\<bar> \<le> 100" by (simp add: abs_mult)
    have "small 5" by (simp add: small_def)
    from integer_exact_sub [OF assms sm [OF b(1)] this sm [OF b(2)]]
    have s: "p_sub P (PInt i) (Fin 5) = Inr (Fin (of_int (i - 5)))" by simp
    from integer_exact_pow2 [OF assms sm [OF c]]
    have "p_pow2 P (Fin (of_int (i - 5))) = Inr (Fin (of_int ((i - 5) * (i - 5))))" .
    with s show ?thesis unfolding squared_deviation_def by auto
  qed
  have devs: "list_all2 (squared_deviation P (Fin 5)) ?vals ?qs"
    using sq [of 2] sq [of 4] sq [of 5] sq [of 7] sq [of 9]
    by (simp add: int_items_def)
  from integer_exact_sum_floats [OF assms, of "[9, 1, 1, 1, 0, 0, 4, 16]"]
  have ss: "py_sum P (map (\<lambda>q. JNum (PFloat q)) ?qs) = Inr (PFloat (Fin 32))"
    by (simp add: float_items_def sm)
  from integer_exact_truediv_float [OF assms, of 8 4]
  have var: "p_truediv P (PFloat (Fin 32)) 8 = Inr (Fin 4)" by (simp add: sm)
  from integer_exact_sqrt [OF assms, of 2]
  have sd: "p_sqrt P (Fin 4) = Inr (Fin 2)" by (simp add: sm)
  from integer_exact_round2 [OF assms, of 5] integer_exact_round2 [OF assms, of 2]
  have rd: "p_round2 P 5 = 5" "p_round2 P 2 = 2" by (simp_all add: sm)
  have len: "length ?vals = 8" by (simp add: int_items_def)
  from total m devs ss var sd rd len
  have "spec_baseline P (platform_rounded P) ?vals \<lparr>total = PInt 40, mean = Fin 5, std_dev = Fin 2\<rparr>"
    unfolding spec_baseline_def platform_rounded_iff
    by - (rule exI [of _ "Fin 5"], rule exI [of _ ?qs], rule exI [of _ "PFloat (Fin 32)"],
        rule exI [of _ "Fin 4"], rule exI [of _ "Fin 2"], simp)
  then show ?thesis by (simp only: event_baseline_iff_spec)
qed

lemma log_files_login:
  "log_files login_logs
     = [''day_1.log'', ''day_2.log'', ''day_3.log'', ''day_4.log'', ''day_5.log'', ''day_6.log'',
        ''day_7.log'', ''day_8.log'']"
  by (simp add: log_files_def login_logs_def login_day_def is_log_name_def startswith_def
      endswith_def)

lemma accumulated_login:
  "accumulated login_logs ''Logins'' = int_items login_values"
  unfolding accumulated_def log_files_login
  by (simp add: values_of_logs_def values_of_log_def login_logs_def login_day_def
      login_values_def int_items_def)

lemma analyze_login_world:
  "analyze_stats exact_platform login_world
     = Inr ([(''Logins'', \<lparr>total = PInt 40, mean = Fin 5, std_dev = Fin 2\<rparr>)], login_world)"
proof -
  have "read_logs login_logs (log_files login_logs) [(''Logins'', [])] []
      = Inr ([(''Logins'', int_items [2, 4, 4, 4, 5, 5, 7, 9])], [])"
    unfolding log_files_login
    by (simp add: login_logs_def login_day_def int_items_def)
  moreover have "int_items [2, 4, 4, 4, 5, 5, 7, 9] \<noteq> []" by (simp add: int_items_def)
  ultimately show ?thesis
    by (simp add: analyze_stats_def login_world_def initial_world_def
        event_baseline_login_values [OF integer_exact_exact_platform])
qed

lemma log_files_mixed: "log_files mixed_logs = [''day_1.log'', ''day_2.log'']"
  by (simp add: log_files_def mixed_logs_def is_log_name_def startswith_def endswith_def)

lemma log_files_huge: "log_files huge_logs = [''day_1.log'']"
  by (simp add: log_files_def huge_logs_def is_log_name_def startswith_def endswith_def)

lemma log_files_wide: "log_files wide_logs = [''day_1.log'', ''day_2.log'']"
  by (simp add: log_files_def wide_logs_def is_log_name_def startswith_def endswith_def)

lemma float_limit_huge: "float_limit \<le> 10 ^ 400"
  unfolding float_limit_def by simp

lemma float_limit_wide: "float_limit \<le> 2 ^ 599 * 2 ^ 599" "\<not> float_limit \<le> 2 ^ 600"
  "\<not> float_limit \<le> 2 ^ 599" "\<not> float_limit \<le> 0" "\<not> 2 ^ 600 \<le> - float_limit"
  "\<not> float_limit \<le> - (2 ^ 599)" "\<not> - (2 ^ 599) \<le> - float_limit"
  unfolding float_limit_def by simp_all

text \<open>
  C2, as stated, fails: the analysis raises for events that have accumulated numeric
  values, and returns no statistics at all.
  \<^item> An event whose logs hold the number 2 and, in an earlier log, a string: \<^verbatim>\<open>sum\<close>
    raises a TypeError, which \<open>analyze_stats\<close> does not catch.
  \<^item> An event whose only value is the \<^verbatim>\<open>int\<close> \<open>10 ** 400\<close>: the total is that \<^verbatim>\<open>int\<close>, and
    its division by the count raises an OverflowError.
  \<^item> A continuous event with the values \<open>0.0\<close> and \<open>2.0 ** 600\<close>: the mean is \<open>2.0 ** 599\<close>,
    and the square of the first deviation raises an OverflowError.
\<close>

theorem baseline_raises_counterexample:
  "accumulated mixed_logs ''Logins'' = [JStr ''many'', JNum (PInt 2)]
   \<and> analyze_stats exact_platform mixed_world = Inl TypeError
   \<and> accumulated huge_logs ''Logins'' = [JNum (PInt (10 ^ 400))]
   \<and> analyze_stats exact_platform huge_world = Inl OverflowError
   \<and> accumulated wide_logs ''Time online'' = [JNum (PFloat (Fin 0)), JNum (PFloat (Fin (2 ^ 600)))]
   \<and> analyze_stats exact_platform wide_world = Inl OverflowError"
proof -
  have a1: "accumulated mixed_logs ''Logins'' = [JStr ''many'', JNum (PInt 2)]"
    unfolding accumulated_def log_files_mixed
    by (simp add: values_of_logs_def values_of_log_def mixed_logs_def)
  have "read_logs mixed_logs (log_files mixed_logs) [(''Logins'', [])] []
      = Inr ([(''Logins'', [JStr ''many'', JNum (PInt 2)])], [])"
    unfolding log_files_mixed by (simp add: mixed_logs_def)
  then have r1: "analyze_stats exact_platform mixed_world = Inl TypeError"
    by (simp add: analyze_stats_def mixed_world_def initial_world_def event_baseline_def
        py_sum_def)
  have a2: "accumulated huge_logs ''Logins'' = [JNum (PInt (10 ^ 400))]"
    unfolding accumulated_def log_files_huge
    by (simp add: values_of_logs_def values_of_log_def huge_logs_def del: power_numeral)
  have "read_logs huge_logs (log_files huge_logs) [(''Logins'', [])] []
      = Inr ([(''Logins'', [JNum (PInt (10 ^ 400))])], [])"
    unfolding log_files_huge by (simp add: huge_logs_def del: power_numeral)
  then have r2: "analyze_stats exact_platform huge_world = Inl OverflowError"
    using float_limit_huge
    by (simp add: analyze_stats_def huge_world_def initial_world_def event_baseline_def
        py_sum_def exact_platform_def del: power_numeral)
  have a3: "accumulated wide_logs ''Time online''
      = [JNum (PFloat (Fin 0)), JNum (PFloat (Fin (2 ^ 600)))]"
    unfolding accumulated_def log_files_wide
    by (simp add: values_of_logs_def values_of_log_def wide_logs_def del: power_numeral)
  have "read_logs wide_logs (log_files wide_logs) [(''Time online'', [])] []
      = Inr ([(''Time online'', [JNum (PFloat (Fin 0)), JNum (PFloat (Fin (2 ^ 600)))])], [])"
    unfolding log_files_wide by (simp add: wide_logs_def del: power_numeral)
  moreover have "event_baseline exact_platform [JNum (PFloat (Fin 0)), JNum (PFloat (Fin (2 ^ 600)))]
      = Inl OverflowError"
  proof -
    have half: "(2::real) ^ 600 / 2 = 2 ^ 599" by simp
    have s: "py_sum exact_platform [JNum (PFloat (Fin 0)), JNum (PFloat (Fin (2 ^ 600)))]
        = Inr (PFloat (Fin (2 ^ 600)))"
      using float_limit_wide
      by (simp add: py_sum_def exact_platform_def exact_fin_def del: power_numeral)
    have m: "p_truediv exact_platform (PFloat (Fin (2 ^ 600))) (Suc (Suc 0)) = Inr (Fin (2 ^ 599))"
      by (simp add: exact_platform_def half del: power_numeral)
    have d: "p_sub exact_platform (PFloat (Fin 0)) (Fin (2 ^ 599)) = Inr (Fin (- (2 ^ 599)))"
      using float_limit_wide
      by (simp add: exact_platform_def exact_sub_def exact_fin_def del: power_numeral)
    have q: "p_pow2 exact_platform (Fin (- (2 ^ 599))) = Inl OverflowError"
      using float_limit_wide by (simp add: exact_platform_def del: power_numeral)
    show ?thesis
      by (simp add: event_baseline_def s m d q del: power_numeral)
  qed
  ultimately have r3: "analyze_stats exact_platform wide_world = Inl OverflowError"
    by (simp add: analyze_stats_def wide_world_def initial_world_def del: power_numeral)
  show ?thesis by (intro conjI a1 r1 a2 r2 a3 r3)
qed

lemma exact_int_sum_exact_platform: "exact_int_sum exact_platform"
  using integer_exact_exact_platform by (simp add: integer_exact_def)

text \<open>
  C2, amended. Let the analysis return. If a name is defined in \<open>events\<close> and the logs hold
  at least one value for it, the result has an entry \<open>b\<close> for the name, and \<open>b\<close> is the
  baseline of these values in the words of the specification: its total is
  \<^verbatim>\<open>sum(values)\<close>, not rounded; its mean is the total divided by the count, rounded by
  \<^verbatim>\<open>round(x, 2)\<close>; its standard deviation is the square root of the sum of the squared
  deviations from the unrounded mean divided by the count (the population variance),
  rounded by \<^verbatim>\<open>round(x, 2)\<close>; every operation is the one of the platform's float
  arithmetic. On a platform that rounds to two decimal places the reported mean and
  standard deviation are the unrounded ones rounded to two decimal places. When the
  values are \<^verbatim>\<open>int\<close>s, the total is their exact sum. Otherwise the result has no entry
  for the name. For the values 2, 4, 4, 4, 5, 5, 7, 9 the entry is total 40, mean 5.0,
  standard deviation 2.0 on every platform that is exact on small whole numbers.
\<close>

theorem baseline_statistics_of_event:
  assumes "analyze_stats P w = Inr (bs, w')" and "distinct (map fst (events w))"
    and "log_dir w = Some dir"
  shows "(if name \<in> fst ` set (events w) \<and> accumulated dir name \<noteq> []
          then \<exists>b. map_of bs name = Some b
                 \<and> spec_baseline P (platform_rounded P) (accumulated dir name) b
                 \<and> (two_decimals P \<longrightarrow> spec_baseline P hundredth_rounded (accumulated dir name) b)
                 \<and> (\<forall>xs. exact_int_sum P \<and> accumulated dir name = int_items xs
                       \<longrightarrow> total b = PInt (sum_list xs))
          else map_of bs name = None)
       \<and> (integer_exact P \<longrightarrow>
            event_baseline P (int_items [2, 4, 4, 4, 5, 5, 7, 9])
              = Inr \<lparr>total = PInt 40, mean = Fin 5, std_dev = Fin 2\<rparr>)"
proof -
  note look = analyze_stats_lookup [OF assms(1-3), of name]
  have first: "if name \<in> fst ` set (events w) \<and> accumulated dir name \<noteq> []
          then \<exists>b. map_of bs name = Some b
                 \<and> spec_baseline P (platform_rounded P) (accumulated dir name) b
                 \<and> (two_decimals P \<longrightarrow> spec_baseline P hundredth_rounded (accumulated dir name) b)
                 \<and> (\<forall>xs. exact_int_sum P \<and> accumulated dir name = int_items xs
                       \<longrightarrow> total b = PInt (sum_list xs))
          else map_of bs name = None"
  proof (cases "name \<in> fst ` set (events w) \<and> accumulated dir name \<noteq> []")
    case True
    show ?thesis
    proof (cases "event_baseline P (accumulated dir name)")
      case (Inl e)
      from assms(1,3) obtain totals out where
        r: "read_logs dir (log_files dir) (map (\<lambda>name. (name, [])) (map fst (events w)))
              (stdout w) = Inr (totals, out)"
        and b: "baseline_loop P totals [] = Inr bs"
        by (auto simp: analyze_stats_def split: sum.splits)
      have "map_of totals name = Some (accumulated dir name)"
        unfolding read_logs_lookup [OF r, of name] initial_totals_lookup accumulated_def
        using True by simp
      then have "(name, accumulated dir name) \<in> set totals" by (rule map_of_SomeD)
      from baseline_loop_raises [OF this _ Inl, of "[]"] True b show ?thesis by auto
    next
      case (Inr b)
      then have sp: "spec_baseline P (platform_rounded P) (accumulated dir name) b"
        by (simp only: event_baseline_iff_spec)
      then have tot: "py_sum P (accumulated dir name) = Inr (total b)"
        unfolding spec_baseline_def by blast
      have two: "spec_baseline P hundredth_rounded (accumulated dir name) b" if "two_decimals P"
        using sp by (rule spec_baseline_mono) (rule two_decimals_rounded [OF that])
      have "total b = PInt (sum_list xs)"
        if "exact_int_sum P" "accumulated dir name = int_items xs" for xs
        using that tot by (simp add: exact_int_sum_def)
      with look True Inr sp two show ?thesis by auto
    qed
  next
    case False
    with look show ?thesis by auto
  qed
  have second: "integer_exact P \<longrightarrow>
            event_baseline P (int_items [2, 4, 4, 4, 5, 5, 7, 9])
              = Inr \<lparr>total = PInt 40, mean = Fin 5, std_dev = Fin 2\<rparr>"
    by (simp add: event_baseline_login_values)
  from first second show ?thesis by (rule conjI)
qed

theorem baseline_statistics_of_event_witness:
  "analyze_stats exact_platform login_world
     = Inr ([(''Logins'', \<lparr>total = PInt 40, mean = Fin 5, std_dev = Fin 2\<rparr>)], login_world)
   \<and> distinct (map fst (events login_world))
   \<and> log_dir login_world = Some login_logs
   \<and> ''Logins'' \<in> fst ` set (events login_world)
   \<and> accumulated login_logs ''Logins'' = int_items [2, 4, 4, 4, 5, 5, 7, 9]
   \<and> two_decimals exact_platform
   \<and> exact_int_sum exact_platform
   \<and> integer_exact exact_platform
   \<and> (\<exists>b. map_of [(''Logins'', \<lparr>total = PInt 40, mean = Fin 5, std_dev = Fin 2\<rparr>)] ''Logins'' = Some b
         \<and> spec_baseline exact_platform (platform_rounded exact_platform)
             (accumulated login_logs ''Logins'') b
         \<and> spec_baseline exact_platform hundredth_rounded (accumulated login_logs ''Logins'') b
         \<and> total b = PInt (sum_list [2, 4, 4, 4, 5, 5, 7, 9]))
   \<and> event_baseline exact_platform (int_items [2, 4, 4, 4, 5, 5, 7, 9])
       = Inr \<lparr>total = PInt 40, mean = Fin 5, std_dev = Fin 2\<rparr>"
proof -
  note h1 = analyze_login_world
  have h2: "distinct (map fst (events login_world))"
    by (simp add: login_world_def initial_world_def)
  have h3: "log_dir login_world = Some login_logs"
    by (simp add: login_world_def initial_world_def)
  have h4: "''Logins'' \<in> fst ` set (events login_world)"
    by (simp add: login_world_def initial_world_def)
  have h5: "accumulated login_logs ''Logins'' = int_items [2, 4, 4, 4, 5, 5, 7, 9]"
    by (simp add: accumulated_login login_values_def)
  note h6 = integer_exact_exact_platform
  note h7 = two_decimals_exact_platform
  note h8 = exact_int_sum_exact_platform
  have ne: "accumulated login_logs ''Logins'' \<noteq> []"
    by (simp add: h5 int_items_def)
  note c = baseline_statistics_of_event [OF h1 h2 h3, of "''Logins''"]
  from c [THEN conjunct1] h4 ne obtain b where
    b: "map_of [(''Logins'', \<lparr>total = PInt 40, mean = Fin 5, std_dev = Fin 2\<rparr>)] ''Logins'' = Some b"
       "spec_baseline exact_platform (platform_rounded exact_platform)
          (accumulated login_logs ''Logins'') b"
       "two_decimals exact_platform
          \<longrightarrow> spec_baseline exact_platform hundredth_rounded (accumulated login_logs ''Logins'') b"
       "\<forall>xs. exact_int_sum exact_platform \<and> accumulated login_logs ''Logins'' = int_items xs
          \<longrightarrow> total b = PInt (sum_list xs)"
    by (auto simp only: if_True simp_thms)
  from b(3) h7 have b3: "spec_baseline exact_platform hundredth_rounded (accumulated login_logs ''Logins'') b"
    by blast
  from b(4) h5 h8 have "total b = PInt (sum_list [2, 4, 4, 4, 5, 5, 7, 9])" by blast
  with b(1,2) b3 have c1: "\<exists>b. map_of [(''Logins'', \<lparr>total = PInt 40, mean = Fin 5, std_dev = Fin 2\<rparr>)] ''Logins'' = Some b
         \<and> spec_baseline exact_platform (platform_rounded exact_platform)
             (accumulated login_logs ''Logins'') b
         \<and> spec_baseline exact_platform hundredth_rounded (accumulated login_logs ''Logins'') b
         \<and> total b = PInt (sum_list [2, 4, 4, 4, 5, 5, 7, 9])"
    by blast
  note c2 = c [THEN conjunct2, THEN mp, OF h6]
  show ?thesis by (intro conjI h1 h2 h3 h4 h5 h7 h8 h6 c1 c2)
qed

section \<open>The readers of the configuration\<close>

lemmas reader_defs = lit_float_def lit_abs_float_def lit_int_def lit_nat_def digit_val_def
  py_strip_def py_isspace_def py_slice_def

lemma read_events_file:
  "read_events lit_float lit_int (Some events_file) (initial_world None) = Inr world_of_events_file"
  by (simp add: read_events_def events_file_def reader_defs event_record_def events_diag_def
      initial_world_def world_of_events_file_def logins_info_def sent_info_def)

lemma read_statistics_file:
  "read_statistics lit_float lit_int (Some stats_file) (initial_world None) = Inr world_of_stats_file"
  by (simp add: read_statistics_def stats_file_def reader_defs stat_record_def stats_diag_def
      initial_world_def world_of_stats_file_def logins_stat_def)

lemma read_events_file_again:
  "read_events lit_float lit_int (Some events_file_again) world_of_events_file
     = Inr world_of_events_file_again"
  by (simp add: read_events_def events_file_again_def reader_defs event_record_def events_diag_def
      initial_world_def world_of_events_file_def world_of_events_file_again_def
      logins_info_def sent_info_def)


lemma read_events_lines_append:
  "read_events_lines pfloat pint (xs @ ys) w =
     (case read_events_lines pfloat pint xs w of
        Inl e \<Rightarrow> Inl e
      | Inr w1 \<Rightarrow> read_events_lines pfloat pint ys w1)"
  by (induction xs arbitrary: w) (auto simp: Let_def split: sum.splits)

lemma read_statistics_lines_append:
  "read_statistics_lines pfloat (xs @ ys) w =
     (case read_statistics_lines pfloat xs w of
        Inl e \<Rightarrow> Inl e
      | Inr w1 \<Rightarrow> read_statistics_lines pfloat ys w1)"
  by (induction xs arbitrary: w) (auto simp: Let_def split: sum.splits)

lemma read_events_lines_result:
  "read_events_lines pfloat pint lines w = Inr w'
    \<Longrightarrow> (\<forall>name. map_of (events w') name =
            (case map_of (rev (event_entries pfloat pint lines)) name of
               Some info \<Rightarrow> Some info
             | None \<Rightarrow> map_of (events w) name))
        \<and> stdout w' = stdout w
             @ map events_diag (filter (\<lambda>l. length (py_split (py_strip l)) \<noteq> 5) lines)
        \<and> statistics w' = statistics w \<and> log_dir w' = log_dir w
        \<and> gauss_calls w' = gauss_calls w"
proof (induction lines arbitrary: w)
  case Nil
  then show ?case by (simp add: event_entries_def)
next
  case (Cons line lines)
  let ?parts = "py_split (py_strip line)"
  show ?case
  proof (cases "length ?parts \<noteq> 5")
    case True
    with Cons.prems have
      "read_events_lines pfloat pint lines (w\<lparr>stdout := stdout w @ [events_diag line]\<rparr>) = Inr w'"
      by (simp add: Let_def)
    from Cons.IH [OF this] True show ?thesis
      by (simp add: event_entries_def event_entry_def cong: option.case_cong)
  next
    case False
    with Cons.prems obtain info where
      info: "event_record pfloat pint ?parts = Inr info"
      and rest: "read_events_lines pfloat pint lines
          (w\<lparr>events := AList.update (?parts ! 0) info (events w)\<rparr>) = Inr w'"
      by (auto simp: Let_def split: sum.splits)
    have ent: "event_entries pfloat pint (line # lines)
        = (?parts ! 0, info) # event_entries pfloat pint lines"
      using False info by (simp add: event_entries_def event_entry_def)
    from Cons.IH [OF rest] False show ?thesis
      unfolding ent
      by (auto simp: update_conv' map_add_def split: option.splits)
  qed
qed

lemma read_statistics_lines_result:
  "read_statistics_lines pfloat lines w = Inr w'
    \<Longrightarrow> (\<forall>name. map_of (statistics w') name =
            (case map_of (rev (stat_entries pfloat lines)) name of
               Some info \<Rightarrow> Some info
             | None \<Rightarrow> map_of (statistics w) name))
        \<and> stdout w' = stdout w
             @ map stats_diag (filter (\<lambda>l. length (py_split (py_strip l)) \<noteq> 4) lines)
        \<and> events w' = events w \<and> log_dir w' = log_dir w
        \<and> gauss_calls w' = gauss_calls w"
proof (induction lines arbitrary: w)
  case Nil
  then show ?case by (simp add: stat_entries_def)
next
  case (Cons line lines)
  let ?parts = "py_split (py_strip line)"
  show ?case
  proof (cases "length ?parts \<noteq> 4")
    case True
    with Cons.prems have
      "read_statistics_lines pfloat lines (w\<lparr>stdout := stdout w @ [stats_diag line]\<rparr>) = Inr w'"
      by (simp add: Let_def)
    from Cons.IH [OF this] True show ?thesis
      by (simp add: stat_entries_def stat_entry_def cong: option.case_cong)
  next
    case False
    with Cons.prems obtain info where
      info: "stat_record pfloat ?parts = Inr info"
      and rest: "read_statistics_lines pfloat lines
          (w\<lparr>statistics := AList.update (?parts ! 0) info (statistics w)\<rparr>) = Inr w'"
      by (auto simp: Let_def split: sum.splits)
    have ent: "stat_entries pfloat (line # lines)
        = (?parts ! 0, info) # stat_entries pfloat lines"
      using False info by (simp add: stat_entries_def stat_entry_def)
    from Cons.IH [OF rest] False show ?thesis
      unfolding ent
      by (auto simp: update_conv' map_add_def split: option.splits)
  qed
qed

lemma read_events_record_lines:
  "read_events pfloat pint (Some lines) w = Inr w'
    \<Longrightarrow> read_events_lines pfloat pint (record_lines pint lines) w = Inr w'"
  by (auto simp: read_events_def record_lines_def split: list.splits option.splits)

lemma read_statistics_record_lines:
  "read_statistics pfloat pint (Some lines) w = Inr w'
    \<Longrightarrow> read_statistics_lines pfloat (record_lines pint lines) w = Inr w'"
  by (auto simp: read_statistics_def record_lines_def split: list.splits option.splits)

text \<open>
  C7. In both readers a line whose number of colon-separated fields is not the expected
  one (5 for definitions, 4 for statistics) is not fatal and adds nothing but a
  diagnostic: read alone it returns the state with the diagnostic printed, and reading
  the lines before it, the line and the lines after it is reading the lines before it,
  printing the diagnostic, and reading the lines after it. The definitions file that
  counts three records, one of them with four fields, is read without an exception and
  leaves two entries; the statistics file that counts two records, one of them with three
  fields, is read without an exception and leaves one entry.
\<close>

theorem wrong_arity_line_is_skipped:
  "(length (py_split (py_strip line)) \<noteq> 5 \<longrightarrow>
      read_events_lines pfloat pint [line] w = Inr (w\<lparr>stdout := stdout w @ [events_diag line]\<rparr>)
      \<and> read_events_lines pfloat pint (pre @ line # post) w =
        (case read_events_lines pfloat pint pre w of
           Inl e \<Rightarrow> Inl e
         | Inr w1 \<Rightarrow>
             read_events_lines pfloat pint post (w1\<lparr>stdout := stdout w1 @ [events_diag line]\<rparr>)))
   \<and> (length (py_split (py_strip line)) \<noteq> 4 \<longrightarrow>
      read_statistics_lines pfloat [line] w = Inr (w\<lparr>stdout := stdout w @ [stats_diag line]\<rparr>)
      \<and> read_statistics_lines pfloat (pre @ line # post) w =
        (case read_statistics_lines pfloat pre w of
           Inl e \<Rightarrow> Inl e
         | Inr w1 \<Rightarrow>
             read_statistics_lines pfloat post (w1\<lparr>stdout := stdout w1 @ [stats_diag line]\<rparr>)))
   \<and> read_events lit_float lit_int (Some events_file) (initial_world None)
       = Inr world_of_events_file
   \<and> length (events world_of_events_file) = 2
   \<and> read_statistics lit_float lit_int (Some stats_file) (initial_world None)
       = Inr world_of_stats_file
   \<and> length (statistics world_of_stats_file) = 1"
  by (simp add: read_events_lines_append read_statistics_lines_append read_events_file
      read_statistics_file world_of_events_file_def world_of_stats_file_def Let_def
      cong: sum.case_cong)

theorem wrong_arity_line_is_skipped_witness:
  "length (py_split (py_strip ''Time online:C:0:1440\<newline>'')) \<noteq> 5
   \<and> read_events_lines lit_float lit_int [''Time online:C:0:1440\<newline>''] (initial_world None)
      = Inr ((initial_world None)
              \<lparr>stdout := stdout (initial_world None) @ [events_diag ''Time online:C:0:1440\<newline>'']\<rparr>)
   \<and> read_events_lines lit_float lit_int
        ([''Logins:D:::2\<newline>''] @ ''Time online:C:0:1440\<newline>'' # [''Emails sent:D::10:1\<newline>''])
        (initial_world None)
      = Inr world_of_events_file
   \<and> length (py_split (py_strip ''Emails sent:10:3\<newline>'')) \<noteq> 4
   \<and> read_statistics_lines lit_float [''Emails sent:10:3\<newline>''] (initial_world None)
      = Inr ((initial_world None)
              \<lparr>stdout := stdout (initial_world None) @ [stats_diag ''Emails sent:10:3\<newline>'']\<rparr>)
   \<and> read_statistics_lines lit_float
        ([''Logins:4:1.5:\<newline>''] @ ''Emails sent:10:3\<newline>'' # []) (initial_world None)
      = Inr world_of_stats_file"
proof -
  have h1: "length (py_split (py_strip ''Time online:C:0:1440\<newline>'')) \<noteq> 5"
    by (simp add: py_strip_def py_isspace_def)
  have h2: "length (py_split (py_strip ''Emails sent:10:3\<newline>'')) \<noteq> 4"
    by (simp add: py_strip_def py_isspace_def)
  note c1 = wrong_arity_line_is_skipped [THEN conjunct1, THEN mp, OF h1,
      of lit_float lit_int "initial_world None" "[''Logins:D:::2\<newline>'']"
        "[''Emails sent:D::10:1\<newline>'']"]
  note c2 = wrong_arity_line_is_skipped [THEN conjunct2, THEN conjunct1, THEN mp, OF h2,
      of lit_float "initial_world None" "[''Logins:4:1.5:\<newline>'']" "[]"]
  have e1: "(case read_events_lines lit_float lit_int [''Logins:D:::2\<newline>''] (initial_world None) of
           Inl e \<Rightarrow> Inl e
         | Inr w1 \<Rightarrow>
             read_events_lines lit_float lit_int [''Emails sent:D::10:1\<newline>'']
               (w1\<lparr>stdout := stdout w1 @ [events_diag ''Time online:C:0:1440\<newline>'']\<rparr>))
      = Inr world_of_events_file"
    by (simp add: reader_defs event_record_def events_diag_def initial_world_def
        world_of_events_file_def logins_info_def sent_info_def)
  have e2: "(case read_statistics_lines lit_float [''Logins:4:1.5:\<newline>''] (initial_world None) of
           Inl e \<Rightarrow> Inl e
         | Inr w1 \<Rightarrow>
             read_statistics_lines lit_float []
               (w1\<lparr>stdout := stdout w1 @ [stats_diag ''Emails sent:10:3\<newline>'']\<rparr>))
      = Inr world_of_stats_file"
    by (simp add: reader_defs stat_record_def stats_diag_def initial_world_def
        world_of_stats_file_def logins_stat_def)
  show ?thesis
    by (intro conjI h1 h2 c1 [THEN conjunct1] c1 [THEN conjunct2, THEN trans, OF e1]
        c2 [THEN conjunct1] c2 [THEN conjunct2, THEN trans, OF e2])
qed

text \<open>
  C10. The readers change the dictionaries of the state they are called in and do not
  start from empty ones. After \<open>read_events\<close> a name is bound to the entry of the last
  record line that lists it, and a name that no record line lists keeps the entry it had
  before the call; the only lines printed are the diagnostics of the lines with a wrong
  number of fields, so a repeated name is overwritten without a diagnostic. The same
  holds for \<open>read_statistics\<close>.
\<close>

theorem readers_accumulate_last_wins:
  "(read_events pfloat pint (Some lines) w = Inr w' \<longrightarrow>
      (\<forall>name. map_of (events w') name =
         (case map_of (rev (event_entries pfloat pint (record_lines pint lines))) name of
            Some info \<Rightarrow> Some info
          | None \<Rightarrow> map_of (events w) name))
      \<and> stdout w' = stdout w
           @ map events_diag
               (filter (\<lambda>l. length (py_split (py_strip l)) \<noteq> 5) (record_lines pint lines)))
   \<and> (read_statistics pfloat pint (Some lines) w = Inr w'' \<longrightarrow>
      (\<forall>name. map_of (statistics w'') name =
         (case map_of (rev (stat_entries pfloat (record_lines pint lines))) name of
            Some info \<Rightarrow> Some info
          | None \<Rightarrow> map_of (statistics w) name))
      \<and> stdout w'' = stdout w
           @ map stats_diag
               (filter (\<lambda>l. length (py_split (py_strip l)) \<noteq> 4) (record_lines pint lines)))"
proof (intro conjI impI)
  assume "read_events pfloat pint (Some lines) w = Inr w'"
  from read_events_lines_result [OF read_events_record_lines [OF this]]
  show "\<forall>name. map_of (events w') name =
         (case map_of (rev (event_entries pfloat pint (record_lines pint lines))) name of
            Some info \<Rightarrow> Some info
          | None \<Rightarrow> map_of (events w) name)"
    and "stdout w' = stdout w
           @ map events_diag
               (filter (\<lambda>l. length (py_split (py_strip l)) \<noteq> 5) (record_lines pint lines))"
    by blast+
next
  assume "read_statistics pfloat pint (Some lines) w = Inr w''"
  from read_statistics_lines_result [OF read_statistics_record_lines [OF this]]
  show "\<forall>name. map_of (statistics w'') name =
         (case map_of (rev (stat_entries pfloat (record_lines pint lines))) name of
            Some info \<Rightarrow> Some info
          | None \<Rightarrow> map_of (statistics w) name)"
    and "stdout w'' = stdout w
           @ map stats_diag
               (filter (\<lambda>l. length (py_split (py_strip l)) \<noteq> 4) (record_lines pint lines))"
    by blast+
qed

text \<open>The second definitions file read after the first: \<open>Logins\<close> is listed twice and is
  bound to the second record, \<open>Emails sent\<close> stays from the first call, and nothing is
  printed for the repeated name.\<close>

lemma read_events_again_entries:
  "map_of (events world_of_events_file_again) ''Logins''
     = Some \<lparr>ev_type = ''C'', ev_min = PFloat (Fin 1), ev_max = PFloat (Fin 99), ev_weight = 5\<rparr>
   \<and> map_of (events world_of_events_file_again) ''Emails sent'' = Some sent_info
   \<and> stdout world_of_events_file_again = stdout world_of_events_file"
  by (simp add: world_of_events_file_again_def world_of_events_file_def)

theorem readers_accumulate_last_wins_witness:
  "read_events lit_float lit_int (Some events_file_again) world_of_events_file
     = Inr world_of_events_file_again
   \<and> (\<forall>name. map_of (events world_of_events_file_again) name =
         (case map_of (rev (event_entries lit_float lit_int (record_lines lit_int events_file_again))) name of
            Some info \<Rightarrow> Some info
          | None \<Rightarrow> map_of (events world_of_events_file) name))
   \<and> stdout world_of_events_file_again = stdout world_of_events_file
        @ map events_diag
            (filter (\<lambda>l. length (py_split (py_strip l)) \<noteq> 5) (record_lines lit_int events_file_again))
   \<and> read_statistics lit_float lit_int (Some stats_file) (initial_world None)
       = Inr world_of_stats_file
   \<and> (\<forall>name. map_of (statistics world_of_stats_file) name =
         (case map_of (rev (stat_entries lit_float (record_lines lit_int stats_file))) name of
            Some info \<Rightarrow> Some info
          | None \<Rightarrow> map_of (statistics (initial_world None)) name))
   \<and> stdout world_of_stats_file = stdout (initial_world None)
        @ map stats_diag
            (filter (\<lambda>l. length (py_split (py_strip l)) \<noteq> 4) (record_lines lit_int stats_file))"
proof -
  note h1 = read_events_file_again
  note h2 = read_statistics_file
  note c1 = readers_accumulate_last_wins [THEN conjunct1, THEN mp, OF h1]
  note c2 = readers_accumulate_last_wins [THEN conjunct2, THEN mp, OF h2]
  show ?thesis
    by (intro conjI h1 h2 c1 [THEN conjunct1] c1 [THEN conjunct2]
        c2 [THEN conjunct1] c2 [THEN conjunct2])
qed

section \<open>The keys of the dictionaries\<close>

text \<open>The theorems on \<open>generate_events\<close> and \<open>analyze_stats\<close> take the keys of \<open>events\<close>
  to be distinct, as the keys of a dictionary are. The readers keep them so, starting
  from the empty dictionaries of \<open>initial_world\<close>.\<close>

lemma read_events_lines_distinct:
  "read_events_lines pfloat pint lines w = Inr w' \<Longrightarrow> distinct (map fst (events w))
    \<Longrightarrow> distinct (map fst (events w'))"
proof (induction lines arbitrary: w)
  case Nil
  then show ?case by simp
next
  case (Cons line lines)
  let ?parts = "py_split (py_strip line)"
  show ?case
  proof (cases "length ?parts \<noteq> 5")
    case True
    with Cons.prems(1) have
      "read_events_lines pfloat pint lines (w\<lparr>stdout := stdout w @ [events_diag line]\<rparr>) = Inr w'"
      by (simp add: Let_def)
    from Cons.IH [OF this] Cons.prems(2) show ?thesis by simp
  next
    case False
    with Cons.prems(1) obtain info where
      "read_events_lines pfloat pint lines
          (w\<lparr>events := AList.update (?parts ! 0) info (events w)\<rparr>) = Inr w'"
      by (auto simp: Let_def split: sum.splits)
    from Cons.IH [OF this] Cons.prems(2) show ?thesis by (simp add: distinct_update)
  qed
qed

lemma read_events_distinct:
  "read_events pfloat pint (Some lines) w = Inr w' \<Longrightarrow> distinct (map fst (events w))
    \<Longrightarrow> distinct (map fst (events w'))"
  by (rule read_events_lines_distinct [OF read_events_record_lines])

lemma read_statistics_events:
  "read_statistics pfloat pint (Some lines) w = Inr w' \<Longrightarrow> events w' = events w"
  using read_statistics_lines_result [OF read_statistics_record_lines] by blast

lemma initial_world_distinct: "distinct (map fst (events (initial_world dir)))"
  by (simp add: initial_world_def)

end
